theory Spec2Isabelle
  imports Main
begin

chapter \<open>Managed codebase indexing\<close>

text \<open>
  The chunker, the git probe, the client cache, the search composer and the batch handler
  of the watcher, as functions of Isabelle/HOL, and the properties that the specification
  states of them. The model comes first, then the vocabulary of the properties, then the
  proofs.
\<close>

section \<open>JavaScript string primitives\<close>

text \<open>
  A JavaScript string is modelled as a \<^typ>\<open>string\<close>, one \<^typ>\<open>char\<close> per code unit, so
  that \<open>length\<close> is the \<open>.length\<close> of the source; the code units are those below 256.
\<close>

definition newline :: char where
  "newline = CHR 0x0A"

definition tab :: char where
  "tab = CHR 0x09"

text \<open>\<open>s.split(sep)\<close> for a separator of one character: never the empty array.\<close>

fun split_char :: "char \<Rightarrow> string \<Rightarrow> string list" where
  "split_char sep [] = [[]]"
| "split_char sep (c # cs) =
     (if c = sep then [] # split_char sep cs
      else (case split_char sep cs of
              [] \<Rightarrow> [[c]]
            | w # ws \<Rightarrow> (c # w) # ws))"

text \<open>\<open>xs.join(sep)\<close> for a separator of one character.\<close>

fun join_char :: "char \<Rightarrow> string list \<Rightarrow> string" where
  "join_char sep [] = []"
| "join_char sep [x] = x"
| "join_char sep (x # y # ys) = x @ sep # join_char sep (y # ys)"

text \<open>The decimal rendering of an integer inside a template literal.\<close>

fun digits :: "nat \<Rightarrow> string" where
  "digits n =
     (if n < 10 then [char_of (48 + n)]
      else digits (n div 10) @ [char_of (48 + n mod 10)])"

declare digits.simps [simp del]

definition show_int :: "int \<Rightarrow> string" where
  "show_int k = (if k < 0 then CHR ''-'' # digits (nat (- k)) else digits (nat k))"

text \<open>
  \<open>s.trim()\<close>: white space and line terminators are removed at both ends. Of the code
  units that \<open>trim\<close> removes, those below 256 are TAB, LF, VT, FF, CR, space and the
  no-break space.
\<close>

definition whitespace :: "char \<Rightarrow> bool" where
  "whitespace c \<longleftrightarrow> c \<in> set [CHR 0x09, CHR 0x0A, CHR 0x0B, CHR 0x0C, CHR 0x0D, CHR 0x20, CHR 0xA0]"

definition trim :: "string \<Rightarrow> string" where
  "trim s = rev (dropWhile whitespace (rev (dropWhile whitespace s)))"

text \<open>\<open>s.toLowerCase()\<close> on the code units below 256: the ASCII and the Latin-1 capitals.\<close>

definition lower_char :: "char \<Rightarrow> char" where
  "lower_char c =
     (let n = of_char c :: nat in
      if (65 \<le> n \<and> n \<le> 90) \<or> (192 \<le> n \<and> n \<le> 222 \<and> n \<noteq> 215) then char_of (n + 32) else c)"

definition toLowerCase :: "string \<Rightarrow> string" where
  "toLowerCase s = map lower_char s"

text \<open>
  A thrown \<open>Error\<close> with its message. A function that can throw returns \<open>error + 'a\<close>, with
  \<open>Inl\<close> for the exception.
\<close>

datatype error = Error string

fun message :: "error \<Rightarrow> string" where
  "message (Error m) = m"


section \<open>Chunker (chunker.ts)\<close>

record ManagedCodeChunk =
  chunkId :: string
  organizationId :: string
  projectId :: string
  filePath :: string
  codeChunk :: string
  startLine :: int
  endLine :: int
  chunkHash :: string
  gitBranch :: string
  isBaseBranch :: bool

text \<open>The numbers of a configuration and the line numbers are integers.\<close>

record ChunkerConfig =
  maxChunkChars :: int
  minChunkChars :: int
  overlapLines :: int

text \<open>\<open>Partial<ChunkerConfig>\<close>: every field may be missing.\<close>

record PartialChunkerConfig =
  maxChunkChars_opt :: "int option"
  minChunkChars_opt :: "int option"
  overlapLines_opt :: "int option"

text \<open>
  Modelled from the spec: the three constants that \<open>chunker.ts\<close> imports from
  \<open>../constants\<close>, whose file is missing; the spec gives the defaults \<open>{1000, 200, 5}\<close>.
\<close>

definition MANAGED_MAX_CHUNK_CHARS :: int where
  "MANAGED_MAX_CHUNK_CHARS = 1000"

definition MANAGED_MIN_CHUNK_CHARS :: int where
  "MANAGED_MIN_CHUNK_CHARS = 200"

definition MANAGED_OVERLAP_LINES :: int where
  "MANAGED_OVERLAP_LINES = 5"

text \<open>
  The two library functions \<open>createHash("sha256").update(s).digest("hex")\<close> and
  \<open>uuidv5(name, namespace)\<close> are parameters \<open>sha256\<close> and \<open>uuidv5\<close> of the functions that
  call them.
\<close>

definition generateChunkHash :: "(string \<Rightarrow> string) \<Rightarrow> string \<Rightarrow> int \<Rightarrow> int \<Rightarrow> string" where
  "generateChunkHash sha256 fp sl el =
     sha256 (fp @ ''-'' @ show_int sl @ ''-'' @ show_int el)"

definition generateChunkId ::
  "(string \<Rightarrow> string) \<Rightarrow> (string \<Rightarrow> string \<Rightarrow> string) \<Rightarrow> string \<Rightarrow> string \<Rightarrow> string \<Rightarrow> string" where
  "generateChunkId sha256 uuidv5 ch org br =
     (let branchAwareHash = sha256 (ch @ ''-'' @ br) in uuidv5 branchAwareHash org)"

definition createChunk ::
  "(string \<Rightarrow> string) \<Rightarrow> (string \<Rightarrow> string \<Rightarrow> string) \<Rightarrow> string list \<Rightarrow> int \<Rightarrow> int \<Rightarrow>
   string \<Rightarrow> string \<Rightarrow> string \<Rightarrow> string \<Rightarrow> string \<Rightarrow> bool \<Rightarrow> ManagedCodeChunk" where
  "createChunk sha256 uuidv5 lines sl el fp fileHash org proj br isBase =
     (let content = join_char newline lines;
          ch = generateChunkHash sha256 fp sl el;
          i = generateChunkId sha256 uuidv5 ch org br
      in \<lparr> chunkId = i, organizationId = org, projectId = proj, filePath = fp,
           codeChunk = content, startLine = sl, endLine = el, chunkHash = ch,
           gitBranch = br, isBaseBranch = isBase \<rparr>)"

text \<open>The local variables of the loop of \<open>chunkFile\<close>.\<close>

record chunk_vars =
  chunks :: "ManagedCodeChunk list"
  currentChunk :: "string list"
  currentChunkChars :: int
  startLine_var :: int

text \<open>\<open>currentChunk.reduce((sum, l) => sum + l.length + 1, 0)\<close>\<close>

definition reduce_chars :: "string list \<Rightarrow> int" where
  "reduce_chars ls = foldl (\<lambda>sum l. sum + int (length l) + 1) 0 ls"

text \<open>
  One iteration of the \<open>for\<close> loop, at index \<open>i\<close> and line \<open>line\<close>; \<open>mk\<close> is \<open>createChunk\<close>
  with the arguments that do not change during the loop.
\<close>

definition loop_body ::
  "(string list \<Rightarrow> int \<Rightarrow> int \<Rightarrow> ManagedCodeChunk) \<Rightarrow> ChunkerConfig \<Rightarrow> int \<Rightarrow> string \<Rightarrow>
   chunk_vars \<Rightarrow> chunk_vars" where
  "loop_body mk cfg i line v =
     (let lineLength = int (length line) + 1;
          v1 =
            (if currentChunkChars v + lineLength > maxChunkChars cfg \<and> length (currentChunk v) > 0
             then
               (if currentChunkChars v \<ge> minChunkChars cfg
                then
                  (let c = mk (currentChunk v) (startLine_var v) i;
                       overlapStart = max 0 (int (length (currentChunk v)) - overlapLines cfg);
                       cur = drop (nat overlapStart) (currentChunk v)
                   in v\<lparr> chunks := chunks v @ [c],
                         currentChunk := cur,
                         currentChunkChars := reduce_chars cur,
                         startLine_var := i - (int (length cur) - 1) \<rparr>)
                else v)
             else v)
      in v1\<lparr> currentChunk := currentChunk v1 @ [line],
              currentChunkChars := currentChunkChars v1 + lineLength \<rparr>)"

fun chunk_loop ::
  "(string list \<Rightarrow> int \<Rightarrow> int \<Rightarrow> ManagedCodeChunk) \<Rightarrow> ChunkerConfig \<Rightarrow> string list \<Rightarrow> int \<Rightarrow>
   chunk_vars \<Rightarrow> chunk_vars" where
  "chunk_loop mk cfg [] i v = v"
| "chunk_loop mk cfg (line # rest) i v = chunk_loop mk cfg rest (i + 1) (loop_body mk cfg i line v)"

text \<open>\<open>config?.field ?? DEFAULT\<close>\<close>

definition chunkerConfig :: "PartialChunkerConfig option \<Rightarrow> ChunkerConfig" where
  "chunkerConfig config =
     \<lparr> maxChunkChars =
         (case Option.bind config maxChunkChars_opt of Some n \<Rightarrow> n | None \<Rightarrow> MANAGED_MAX_CHUNK_CHARS),
       minChunkChars =
         (case Option.bind config minChunkChars_opt of Some n \<Rightarrow> n | None \<Rightarrow> MANAGED_MIN_CHUNK_CHARS),
       overlapLines =
         (case Option.bind config overlapLines_opt of Some n \<Rightarrow> n | None \<Rightarrow> MANAGED_OVERLAP_LINES) \<rparr>"

definition chunkFile ::
  "(string \<Rightarrow> string) \<Rightarrow> (string \<Rightarrow> string \<Rightarrow> string) \<Rightarrow> string \<Rightarrow> string \<Rightarrow> string \<Rightarrow>
   string \<Rightarrow> string \<Rightarrow> string \<Rightarrow> bool \<Rightarrow> PartialChunkerConfig option \<Rightarrow> ManagedCodeChunk list" where
  "chunkFile sha256 uuidv5 fp content fileHash org proj br isBase config =
     (let cfg = chunkerConfig config;
          lines = split_char newline content;
          mk = (\<lambda>ls sl el. createChunk sha256 uuidv5 ls sl el fp fileHash org proj br isBase);
          v = chunk_loop mk cfg lines 0
                \<lparr> chunks = [], currentChunk = [], currentChunkChars = 0, startLine_var = 1 \<rparr>
      in if length (currentChunk v) > 0 \<and> currentChunkChars v \<ge> minChunkChars cfg
         then chunks v @ [mk (currentChunk v) (startLine_var v) (int (length lines))]
         else chunks v)"

text \<open>\<open>getDefaultChunkerConfig\<close>\<close>

definition getDefaultChunkerConfig :: ChunkerConfig where
  "getDefaultChunkerConfig =
     \<lparr> maxChunkChars = MANAGED_MAX_CHUNK_CHARS, minChunkChars = MANAGED_MIN_CHUNK_CHARS,
       overlapLines = MANAGED_OVERLAP_LINES \<rparr>"

section \<open>Git probe (git-utils.ts)\<close>

text \<open>
  The answers of \<open>git\<close> in one workspace, one field per command that the module runs with
  \<open>execSync\<close>: the output on success, the exception otherwise. \<open>symbolic_ref_retry\<close> is the
  answer to the second \<open>git symbolic-ref\<close>, which runs after \<open>git remote set-head\<close>. The
  functions below take this record where the source takes \<open>workspacePath\<close>.
\<close>

record git =
  rev_parse_abbrev_ref_HEAD :: "error + string"
  symbolic_ref :: "error + string"
  remote_set_head :: "error + string"
  symbolic_ref_retry :: "error + string"
  rev_parse_verify :: "string \<Rightarrow> error + string"
  merge_base :: "string \<Rightarrow> string \<Rightarrow> error + string"
  diff_name_status :: "string \<Rightarrow> error + string"

record GitDiff =
  added :: "string list"
  modified :: "string list"
  deleted :: "string list"

definition getCurrentBranch :: "git \<Rightarrow> error + string" where
  "getCurrentBranch g =
     (case rev_parse_abbrev_ref_HEAD g of
        Inr out \<Rightarrow> Inr (trim out)
      | Inl e \<Rightarrow> Inl (Error (''Failed to get current git branch: '' @ message e)))"

text \<open>
  One line of the loop of \<open>parseDiffOutput\<close>. An empty status has no first character
  (\<open>status[0]\<close> is \<open>undefined\<close>) and matches no \<open>case\<close>.
\<close>

definition parse_line :: "string \<Rightarrow> GitDiff \<Rightarrow> GitDiff" where
  "parse_line line d =
     (let parts = split_char tab line in
      if length parts < 2 then d
      else
        (let status = parts ! 0;
             fp = join_char tab (drop 1 parts)
         in case status of
              [] \<Rightarrow> d
            | c # _ \<Rightarrow>
                if c = CHR ''A'' then d\<lparr> added := added d @ [fp] \<rparr>
                else if c = CHR ''M'' then d\<lparr> modified := modified d @ [fp] \<rparr>
                else if c = CHR ''D'' then d\<lparr> deleted := deleted d @ [fp] \<rparr>
                else if c = CHR ''R'' then
                  (if length parts \<ge> 3
                   then d\<lparr> deleted := deleted d @ [parts ! 1], added := added d @ [parts ! 2] \<rparr>
                   else d)
                else if c = CHR ''C'' then
                  (if length parts \<ge> 3 then d\<lparr> added := added d @ [parts ! 2] \<rparr> else d)
                else d))"

fun parse_lines :: "string list \<Rightarrow> GitDiff \<Rightarrow> GitDiff" where
  "parse_lines [] d = d"
| "parse_lines (line # rest) d = parse_lines rest (parse_line line d)"

definition parseDiffOutput :: "string \<Rightarrow> GitDiff" where
  "parseDiffOutput diffOutput =
     (let lines = filter (\<lambda>line. trim line \<noteq> []) (split_char newline diffOutput)
      in parse_lines lines \<lparr> added = [], modified = [], deleted = [] \<rparr>)"

definition getGitDiff :: "string \<Rightarrow> string \<Rightarrow> git \<Rightarrow> error + GitDiff" where
  "getGitDiff featureBranch baseBranch g =
     (let failed = (\<lambda>e. Inl (Error (''Failed to get git diff between '' @ featureBranch @ '' and '' @
                       baseBranch @ '': '' @ message e)))
      in case merge_base g baseBranch featureBranch of
           Inl e \<Rightarrow> failed e
         | Inr out \<Rightarrow>
             (let mergeBase = trim out in
              case diff_name_status g (mergeBase @ ''..'' @ featureBranch) of
                Inl e \<Rightarrow> failed e
              | Inr diffOutput \<Rightarrow> Inr (parseDiffOutput diffOutput)))"

text \<open>
  \<open>output.match(/refs\/remotes\/origin\/(.+)$/)\<close>, returning the group: the leftmost place
  where the text \<open>refs/remotes/origin/\<close> is followed, up to the end of the string, by one
  character or more, none of them a line terminator.
\<close>

definition line_terminator :: "char \<Rightarrow> bool" where
  "line_terminator c \<longleftrightarrow> c = CHR 0x0A \<or> c = CHR 0x0D"

fun match_origin :: "string \<Rightarrow> string option" where
  "match_origin [] = None"
| "match_origin (c # s) =
     (if take 20 (c # s) = ''refs/remotes/origin/'' \<and> drop 20 (c # s) \<noteq> [] \<and>
         list_all (\<lambda>x. \<not> line_terminator x) (drop 20 (c # s))
      then Some (drop 20 (c # s))
      else match_origin s)"

text \<open>\<open>if (match && match[1]) return match[1]\<close>; without a match the function goes on to \<open>return null\<close>.\<close>

definition branch_of_ref :: "string \<Rightarrow> string option" where
  "branch_of_ref out =
     (case match_origin (trim out) of
        Some b \<Rightarrow> (if b \<noteq> [] then Some b else None)
      | None \<Rightarrow> None)"

definition getDefaultBranchFromRemote :: "git \<Rightarrow> string option" where
  "getDefaultBranchFromRemote g =
     (case symbolic_ref g of
        Inr out \<Rightarrow> branch_of_ref out
      | Inl _ \<Rightarrow>
          (case remote_set_head g of
             Inl _ \<Rightarrow> None
           | Inr _ \<Rightarrow>
               (case symbolic_ref_retry g of
                  Inl _ \<Rightarrow> None
                | Inr out \<Rightarrow> branch_of_ref out)))"

text \<open>\<open>isBaseBranch(branchName, workspacePath?)\<close>\<close>

definition isBaseBranch :: "string \<Rightarrow> git option \<Rightarrow> bool" where
  "isBaseBranch branchName workspace =
     (let baseBranches = [''main'', ''master'', ''develop'', ''development''];
          isCommonBaseBranch = (toLowerCase branchName \<in> set baseBranches)
      in if isCommonBaseBranch then True
         else
           (case workspace of
              None \<Rightarrow> False
            | Some g \<Rightarrow>
                (case getDefaultBranchFromRemote g of
                   None \<Rightarrow> False
                 | Some defaultBranch \<Rightarrow>
                     defaultBranch \<noteq> [] \<and> toLowerCase defaultBranch = toLowerCase branchName)))"

text \<open>The loop of \<open>getBaseBranch\<close> over \<open>commonBranches\<close>, and the fallback after it.\<close>

fun first_verified :: "git \<Rightarrow> string list \<Rightarrow> string" where
  "first_verified g [] = ''main''"
| "first_verified g (branch # rest) =
     (case rev_parse_verify g branch of
        Inr _ \<Rightarrow> branch
      | Inl _ \<Rightarrow> first_verified g rest)"

definition getBaseBranch :: "git \<Rightarrow> string" where
  "getBaseBranch g =
     (let commonBranches = [''main'', ''develop'', ''master''] in
      case getDefaultBranchFromRemote g of
        None \<Rightarrow> first_verified g commonBranches
      | Some defaultBranch \<Rightarrow>
          (if defaultBranch \<noteq> []
           then (case rev_parse_verify g defaultBranch of
                   Inr _ \<Rightarrow> defaultBranch
                 | Inl _ \<Rightarrow> first_verified g commonBranches)
           else first_verified g commonBranches))"

section \<open>Client cache (cache.ts)\<close>

text \<open>
  A \<open>ClientCache\<close> object holds a reference to its \<open>files\<close> object: \<open>updateCacheEntry\<close>
  assigns into that object, and the spread \<open>{...cache, deletedFiles: ...}\<close> copies the
  reference. The \<open>files\<close> objects live in a store, addressed by number; the fields of a
  \<open>ClientCache\<close> object itself are never assigned to, so a cache is a value.
\<close>

record CacheEntry =
  hash :: string
  lastIndexed :: int
  chunkCount :: int

record ClientCache =
  gitBranch_cache :: string
  deletedFiles :: "string list"
  files :: nat

record store =
  objects :: "nat \<Rightarrow> (string \<Rightarrow> CacheEntry option)"
  fresh :: nat

text \<open>\<open>cache.files\<close> as the program reads it in a given store.\<close>

definition files_of :: "store \<Rightarrow> ClientCache \<Rightarrow> (string \<Rightarrow> CacheEntry option)" where
  "files_of st cache = objects st (files cache)"

text \<open>
  A local variable or parameter whose name is also the name of a field carries the
  suffix \<open>_v\<close>.
\<close>

text \<open>Allocation of a new \<open>files\<close> object with the given content.\<close>

definition new_object :: "store \<Rightarrow> (string \<Rightarrow> CacheEntry option) \<Rightarrow> store \<times> nat" where
  "new_object st m = (st\<lparr> objects := (objects st)(fresh st := m), fresh := Suc (fresh st) \<rparr>, fresh st)"

definition createEmptyCache :: "store \<Rightarrow> string \<Rightarrow> store \<times> ClientCache" where
  "createEmptyCache st gitBranch_v =
     (let (st', r) = new_object st Map.empty
      in (st', \<lparr> gitBranch_cache = gitBranch_v, deletedFiles = [], files = r \<rparr>))"

text \<open>\<open>now\<close> is the value of \<open>Date.now()\<close>.\<close>

definition updateCacheEntry ::
  "store \<Rightarrow> int \<Rightarrow> ClientCache \<Rightarrow> string \<Rightarrow> string \<Rightarrow> int \<Rightarrow> store \<times> ClientCache" where
  "updateCacheEntry st now cache fp fileHash count =
     (st\<lparr> objects := (objects st)(files cache :=
              (objects st (files cache))(fp \<mapsto> \<lparr> hash = fileHash, lastIndexed = now, chunkCount = count \<rparr>)) \<rparr>,
      cache)"

definition removeCacheEntry :: "store \<Rightarrow> ClientCache \<Rightarrow> string \<Rightarrow> store \<times> ClientCache" where
  "removeCacheEntry st cache fp =
     (let remainingFiles = (objects st (files cache))(fp := None);
          (st', r) = new_object st remainingFiles
      in (st', cache\<lparr> files := r \<rparr>))"

definition addDeletedFile :: "ClientCache \<Rightarrow> string \<Rightarrow> ClientCache" where
  "addDeletedFile cache fp =
     (if fp \<in> set (deletedFiles cache) then cache
      else cache\<lparr> deletedFiles := deletedFiles cache @ [fp] \<rparr>)"

definition removeDeletedFile :: "ClientCache \<Rightarrow> string \<Rightarrow> ClientCache" where
  "removeDeletedFile cache fp = cache\<lparr> deletedFiles := filter (\<lambda>f. f \<noteq> fp) (deletedFiles cache) \<rparr>"

definition shouldIndexFile :: "store \<Rightarrow> ClientCache \<Rightarrow> string \<Rightarrow> string \<Rightarrow> bool" where
  "shouldIndexFile st cache fp currentHash =
     (case objects st (files cache) fp of
        None \<Rightarrow> True
      | Some cached \<Rightarrow> hash cached \<noteq> currentHash)"

text \<open>
  The value of \<open>JSON.parse\<close>. Numbers are integers here: the loader tests a number only for
  being zero. An object is the list of its members, each name once.
\<close>

datatype json =
  JNull
| JBool bool
| JNumber int
| JString string
| JArray "json list"
| JObject "(string \<times> json) list"

text \<open>
  \<open>v.name\<close>: a \<open>TypeError\<close> on \<open>null\<close>, the member of an object, \<open>undefined\<close> (\<open>None\<close>) where
  there is none. The two names read below are no properties of a boolean, a number, a
  string or an array.
\<close>

definition get_property :: "json \<Rightarrow> string \<Rightarrow> error + json option" where
  "get_property v name =
     (case v of
        JNull \<Rightarrow> Inl (Error (''Cannot read properties of null (reading '' @ name @ '')''))
      | JObject members \<Rightarrow> Inr (map_of members name)
      | _ \<Rightarrow> Inr None)"

text \<open>The truth value of an expression in a condition.\<close>

definition truthy :: "json option \<Rightarrow> bool" where
  "truthy v =
     (case v of
        None \<Rightarrow> False
      | Some JNull \<Rightarrow> False
      | Some (JBool b) \<Rightarrow> b
      | Some (JNumber n) \<Rightarrow> n \<noteq> 0
      | Some (JString s) \<Rightarrow> s \<noteq> []
      | Some (JArray _) \<Rightarrow> True
      | Some (JObject _) \<Rightarrow> True)"

text \<open>
  What the loader needs of its host: the global storage directory of the extension
  context, \<open>vscode.workspace.fs.readFile\<close> followed by \<open>toString\<close>, \<open>JSON.parse\<close>, and the
  SHA-256 digest in hexadecimal.
\<close>

record host =
  globalStorageUri :: string
  readFile :: "string \<Rightarrow> error + string"
  JSON_parse :: "string \<Rightarrow> error + json"
  sha256_hex :: "string \<Rightarrow> string"

definition getCachePath :: "host \<Rightarrow> string \<Rightarrow> string \<Rightarrow> string" where
  "getCachePath h workspacePath_v gitBranch_v =
     (let workspaceHash = sha256_hex h workspacePath_v;
          branchHash = sha256_hex h gitBranch_v;
          fileName = ''managed-index-cache-'' @ workspaceHash @ ''-'' @ branchHash @ ''.json''
      in globalStorageUri h @ ''/'' @ fileName)"

text \<open>
  \<open>loadClientCache\<close> returns the parsed value as it is (the type assertion does nothing
  at run time), or a cache that \<open>createEmptyCache\<close> made.
\<close>

datatype loaded = FromFile json | Created ClientCache

text \<open>The \<open>try\<close> block of \<open>loadClientCache\<close>.\<close>

definition read_cache :: "host \<Rightarrow> git \<Rightarrow> string \<Rightarrow> error + json" where
  "read_cache h g workspacePath_v =
     (case getCurrentBranch g of
        Inl e \<Rightarrow> Inl e
      | Inr gitBranch_v \<Rightarrow>
          (case readFile h (getCachePath h workspacePath_v gitBranch_v) of
             Inl e \<Rightarrow> Inl e
           | Inr cacheData \<Rightarrow>
               (case JSON_parse h cacheData of
                  Inl e \<Rightarrow> Inl e
                | Inr cache \<Rightarrow>
                    (case get_property cache ''gitBranch'' of
                       Inl e \<Rightarrow> Inl e
                     | Inr b \<Rightarrow>
                         if \<not> truthy b then Inl (Error ''Invalid cache structure'')
                         else
                           (case get_property cache ''files'' of
                              Inl e \<Rightarrow> Inl e
                            | Inr f \<Rightarrow>
                                if \<not> truthy f then Inl (Error ''Invalid cache structure'')
                                else Inr cache)))))"

definition loadClientCache :: "host \<Rightarrow> git \<Rightarrow> store \<Rightarrow> string \<Rightarrow> store \<times> (error + loaded)" where
  "loadClientCache h g st workspacePath_v =
     (case read_cache h g workspacePath_v of
        Inr cache \<Rightarrow> (st, Inr (FromFile cache))
      | Inl _ \<Rightarrow>
          (case getCurrentBranch g of
             Inl e \<Rightarrow> (st, Inl e)
           | Inr gitBranch_v \<Rightarrow>
               (let (st', c) = createEmptyCache st gitBranch_v in (st', Inr (Created c)))))"

section \<open>Search (indexer.ts)\<close>

record ManagedIndexingConfig =
  organizationId_cfg :: string
  projectId_cfg :: string
  kilocodeToken :: string
  workspacePath :: string

record SearchRequest =
  query :: string
  organizationId_req :: string
  projectId_req :: string
  preferBranch :: string
  fallbackBranch :: string
  excludeFiles :: "string list"
  path :: "string option"

text \<open>
  \<open>search\<close>: \<open>g\<close> is git in \<open>config.workspacePath\<close>, \<open>apiSearchCode\<close> the call to the remote
  service. The result is the list of the calls made to \<open>apiSearchCode\<close>, with their two
  arguments, and what \<open>search\<close> returns or throws; the \<open>catch\<close> clause logs and throws the
  error again.
\<close>

definition search ::
  "git \<Rightarrow> (SearchRequest \<Rightarrow> string \<Rightarrow> error + 'r) \<Rightarrow> string \<Rightarrow> ManagedIndexingConfig \<Rightarrow>
   string option \<Rightarrow> (SearchRequest \<times> string) list \<times> (error + 'r)" where
  "search g apiSearchCode q config p =
     (case getCurrentBranch g of
        Inl e \<Rightarrow> ([], Inl e)
      | Inr gitBranch_v \<Rightarrow>
          (let excludeFiles_v =
                 (if gitBranch_v \<noteq> ''main'' \<and> gitBranch_v \<noteq> ''master'' \<and> gitBranch_v \<noteq> ''develop''
                  then (case getGitDiff gitBranch_v ''main'' g of
                          Inr diff \<Rightarrow> deleted diff
                        | Inl _ \<Rightarrow> [])
                  else []);
               request =
                 \<lparr> query = q,
                   organizationId_req = organizationId_cfg config,
                   projectId_req = projectId_cfg config,
                   preferBranch = gitBranch_v,
                   fallbackBranch = ''main'',
                   excludeFiles = excludeFiles_v,
                   path = p \<rparr>
           in ([(request, kilocodeToken config)], apiSearchCode request (kilocodeToken config))))"

section \<open>Watcher (watcher.ts)\<close>

datatype change_type = TypeCreated | TypeChanged | TypeDeleted

record FileChangeEvent =
  event_type :: change_type
  event_filePath :: string
  timestamp :: int

text \<open>
  The calls that \<open>processChangeQueue\<close> makes to the scanner's \<open>handleFileDeleted\<close> and
  \<open>indexFile\<close> and to the callback, in the order in which it makes them.
\<close>

datatype watcher_call =
  HandleFileDeleted string
| IndexFile string
| OnFilesChanged "FileChangeEvent list"

text \<open>
  The two \<open>for\<close> loops. A handler returns the new cache or throws; the \<open>catch\<close> inside the
  loop logs the error and the loop goes on with the cache it had.
\<close>

fun delete_loop ::
  "(string \<Rightarrow> 'c \<Rightarrow> error + 'c) \<Rightarrow> FileChangeEvent list \<Rightarrow> 'c \<Rightarrow> watcher_call list \<times> 'c" where
  "delete_loop handleFileDeleted [] cache = ([], cache)"
| "delete_loop handleFileDeleted (event # rest) cache =
     (let cache' = (case handleFileDeleted (event_filePath event) cache of
                      Inr c \<Rightarrow> c
                    | Inl _ \<Rightarrow> cache);
          (calls, final) = delete_loop handleFileDeleted rest cache'
      in (HandleFileDeleted (event_filePath event) # calls, final))"

fun index_loop ::
  "(string \<Rightarrow> 'c \<Rightarrow> error + 'c) \<Rightarrow> FileChangeEvent list \<Rightarrow> 'c \<Rightarrow> watcher_call list \<times> 'c" where
  "index_loop indexFile [] cache = ([], cache)"
| "index_loop indexFile (event # rest) cache =
     (let cache' = (case indexFile (event_filePath event) cache of
                      Inr c \<Rightarrow> c
                    | Inl _ \<Rightarrow> cache);
          (calls, final) = index_loop indexFile rest cache'
      in (IndexFile (event_filePath event) # calls, final))"

text \<open>
  \<open>processChangeQueue\<close>: \<open>load\<close> is the outcome of \<open>await loadClientCache(context,
  config.workspacePath)\<close>, the two handlers are the scanner's functions applied to \<open>config\<close>
  and \<open>context\<close>, and \<open>onFilesChanged\<close> is the optional callback. The function returns
  nothing; the value here is the list of the calls it made.
\<close>

definition processChangeQueue ::
  "(error + 'c) \<Rightarrow> (string \<Rightarrow> 'c \<Rightarrow> error + 'c) \<Rightarrow> (string \<Rightarrow> 'c \<Rightarrow> error + 'c) \<Rightarrow>
   (FileChangeEvent list \<Rightarrow> error + unit) option \<Rightarrow> FileChangeEvent list \<Rightarrow> watcher_call list" where
  "processChangeQueue load handleFileDeleted indexFile onFilesChanged events =
     (if length events = 0 then []
      else
        (case load of
           Inl _ \<Rightarrow> []
         | Inr cache0 \<Rightarrow>
             (let created = filter (\<lambda>e. event_type e = TypeCreated) events;
                  changed = filter (\<lambda>e. event_type e = TypeChanged) events;
                  deleted_v = filter (\<lambda>e. event_type e = TypeDeleted) events;
                  (calls1, cache1) = delete_loop handleFileDeleted deleted_v cache0;
                  toIndex = created @ changed;
                  (calls2, cache2) = index_loop indexFile toIndex cache1;
                  calls3 = (case onFilesChanged of None \<Rightarrow> [] | Some _ \<Rightarrow> [OnFilesChanged events])
              in calls1 @ calls2 @ calls3)))"

section \<open>Vocabulary of the chunker properties\<close>

text \<open>
  The test of the loop that closes the current chunk, and the lines that seed the next one.
\<close>

definition flushes :: "ChunkerConfig \<Rightarrow> string \<Rightarrow> chunk_vars \<Rightarrow> bool" where
  "flushes cfg line v \<longleftrightarrow>
     currentChunkChars v + (int (length line) + 1) > maxChunkChars cfg \<and> currentChunk v \<noteq> [] \<and>
     currentChunkChars v \<ge> minChunkChars cfg"

definition overlap_tail :: "ChunkerConfig \<Rightarrow> string list \<Rightarrow> string list" where
  "overlap_tail cfg cur = drop (nat (max 0 (int (length cur) - overlapLines cfg))) cur"

text \<open>
  The invariant of the loop after the lines \<open>pre\<close>: the current chunk is the lines from
  \<open>startLine\<close> on, and the counter is the sum that \<open>reduce\<close> would compute.
\<close>

definition vars_inv :: "string list \<Rightarrow> chunk_vars \<Rightarrow> bool" where
  "vars_inv pre v \<longleftrightarrow>
     1 \<le> startLine_var v \<and> startLine_var v \<le> int (length pre) + 1 \<and>
     currentChunk v = drop (nat (startLine_var v - 1)) pre \<and>
     currentChunkChars v = reduce_chars (currentChunk v)"

text \<open>The lines with the numbers \<open>sl\<close> to \<open>el\<close>, counted from one, both included.\<close>

definition lines_between :: "string list \<Rightarrow> int \<Rightarrow> int \<Rightarrow> string list" where
  "lines_between ls sl el = take (nat (el - sl + 1)) (drop (nat (sl - 1)) ls)"

text \<open>What the proofs use of \<open>createChunk\<close>: the three fields that the properties read.\<close>

definition chunk_maker :: "(string list \<Rightarrow> int \<Rightarrow> int \<Rightarrow> ManagedCodeChunk) \<Rightarrow> bool" where
  "chunk_maker mk \<longleftrightarrow>
     (\<forall>ls sl el. codeChunk (mk ls sl el) = join_char newline ls \<and>
        startLine (mk ls sl el) = sl \<and> endLine (mk ls sl el) = el)"

text \<open>The coverage that holds of every chunk.\<close>

definition covered :: "ChunkerConfig \<Rightarrow> string list \<Rightarrow> ManagedCodeChunk \<Rightarrow> bool" where
  "covered cfg lines c \<longleftrightarrow>
     1 \<le> startLine c \<and> startLine c \<le> endLine c \<and> endLine c \<le> int (length lines) \<and>
     codeChunk c = join_char newline (lines_between lines (startLine c) (endLine c)) \<and>
     minChunkChars cfg \<le> int (length (codeChunk c)) + 1"

text \<open>The length of the longest line, and the bound on the length of a chunk.\<close>

definition max_line_len :: "string list \<Rightarrow> int" where
  "max_line_len ls = foldr (\<lambda>l m. max (int (length l)) m) ls 0"

definition chunk_bound :: "ChunkerConfig \<Rightarrow> int \<Rightarrow> int" where
  "chunk_bound cfg w =
     max (max (maxChunkChars cfg) (minChunkChars cfg - 1)) (max 0 (overlapLines cfg) * (w + 1)) + w"

definition bounded_vars :: "ChunkerConfig \<Rightarrow> int \<Rightarrow> chunk_vars \<Rightarrow> bool" where
  "bounded_vars cfg w v \<longleftrightarrow>
     currentChunkChars v \<le> chunk_bound cfg w + 1 \<and>
     (\<forall>c\<in>set (chunks v). int (length (codeChunk c)) \<le> chunk_bound cfg w)"

text \<open>
  The lines of a chunk, and the overlap of two line lists: the last \<open>min k (length la)\<close>
  lines of \<open>la\<close> are the first as many of \<open>lb\<close>.
\<close>

definition chunk_lines :: "ManagedCodeChunk \<Rightarrow> string list" where
  "chunk_lines c = split_char newline (codeChunk c)"

definition overlaps :: "int \<Rightarrow> string list \<Rightarrow> string list \<Rightarrow> bool" where
  "overlaps k la lb \<longleftrightarrow>
     (let m = min (nat k) (length la) in drop (length la - m) la = take m lb)"

definition linked :: "int \<Rightarrow> string list \<Rightarrow> string list \<Rightarrow> bool" where
  "linked k la cur \<longleftrightarrow> min (nat k) (length la) \<le> length cur \<and> overlaps k la cur"

definition overlap_inv :: "ChunkerConfig \<Rightarrow> chunk_vars \<Rightarrow> bool" where
  "overlap_inv cfg v \<longleftrightarrow>
     successively (\<lambda>a b. overlaps (overlapLines cfg) (chunk_lines a) (chunk_lines b)) (chunks v) \<and>
     (chunks v \<noteq> [] \<longrightarrow> linked (overlapLines cfg) (chunk_lines (last (chunks v))) (currentChunk v))"

text \<open>
  Example calls: \<open>chunkFile\<close> on a file \<open>a.ts\<close> of the base branch \<open>main\<close>. The two library
  functions are replaced by stand-ins; no property below reads \<open>chunkId\<close> or \<open>chunkHash\<close>.
\<close>

definition example_chunk :: "string list \<Rightarrow> int \<Rightarrow> int \<Rightarrow> ManagedCodeChunk" where
  "example_chunk ls sl el =
     createChunk (\<lambda>s. s) (\<lambda>name ns. name) ls sl el ''a.ts'' ''h'' ''org'' ''proj'' ''main'' True"

definition example_chunks :: "string \<Rightarrow> PartialChunkerConfig option \<Rightarrow> ManagedCodeChunk list" where
  "example_chunks content config =
     chunkFile (\<lambda>s. s) (\<lambda>name ns. name) ''a.ts'' content ''h'' ''org'' ''proj'' ''main'' True config"

text \<open>
  The configuration \<open>{maxChunkChars: 1000, minChunkChars: 200, overlapLines: 5}\<close>, passed
  in full, so that no default is read.
\<close>

definition usual_config :: "PartialChunkerConfig option" where
  "usual_config =
     Some \<lparr> maxChunkChars_opt = Some 1000, minChunkChars_opt = Some 200, overlapLines_opt = Some 5 \<rparr>"

text \<open>A line of 199 characters followed by a line of 900 characters.\<close>

definition long_short :: string where
  "long_short = replicate 199 CHR ''a'' @ newline # replicate 900 CHR ''b''"

text \<open>Six lines of 300 characters each.\<close>

definition six_long :: string where
  "six_long = join_char newline (replicate 6 (replicate 300 CHR ''x''))"

text \<open>Four lines of four characters, chunked with \<open>{maxChunkChars: 10, minChunkChars: 2, overlapLines: 1}\<close>.\<close>

definition four_lines :: string where
  "four_lines = ''aaaa'' @ newline # ''bbbb'' @ newline # ''cccc'' @ newline # ''dddd''"

definition small_config :: "PartialChunkerConfig option" where
  "small_config =
     Some \<lparr> maxChunkChars_opt = Some 10, minChunkChars_opt = Some 2, overlapLines_opt = Some 1 \<rparr>"

section \<open>Vocabulary of the git properties\<close>

text \<open>
  What one line of \<open>git diff --name-status\<close> contributes to the three lists, read off the
  specification: the line is split at TABs, the first letter of the first token decides,
  the path is everything after the first TAB, and a rename or a copy names its two paths
  in the second and the third token.
\<close>

definition no_change :: GitDiff where
  "no_change = \<lparr> added = [], modified = [], deleted = [] \<rparr>"

definition status_letter :: "string \<Rightarrow> char \<Rightarrow> bool" where
  "status_letter status c \<longleftrightarrow> take 1 status = [c]"

definition contribution :: "string \<Rightarrow> GitDiff" where
  "contribution line =
     (case split_char tab line of
        status # p # ps \<Rightarrow>
          if status_letter status CHR ''A''
            then \<lparr> added = [join_char tab (p # ps)], modified = [], deleted = [] \<rparr>
          else if status_letter status CHR ''M''
            then \<lparr> added = [], modified = [join_char tab (p # ps)], deleted = [] \<rparr>
          else if status_letter status CHR ''D''
            then \<lparr> added = [], modified = [], deleted = [join_char tab (p # ps)] \<rparr>
          else if status_letter status CHR ''R''
            then (case ps of
                    new # _ \<Rightarrow> \<lparr> added = [new], modified = [], deleted = [p] \<rparr>
                  | [] \<Rightarrow> no_change)
          else if status_letter status CHR ''C''
            then (case ps of
                    target # _ \<Rightarrow> \<lparr> added = [target], modified = [], deleted = [] \<rparr>
                  | [] \<Rightarrow> no_change)
          else no_change
      | _ \<Rightarrow> no_change)"

definition combine :: "GitDiff \<Rightarrow> GitDiff \<Rightarrow> GitDiff" where
  "combine d e =
     \<lparr> added = added d @ added e, modified = modified d @ modified e, deleted = deleted d @ deleted e \<rparr>"

text \<open>\<open>git rev-parse --verify\<close> succeeds for the branch.\<close>

definition verifies :: "git \<Rightarrow> string \<Rightarrow> bool" where
  "verifies g branch = (case rev_parse_verify g branch of Inr _ \<Rightarrow> True | Inl _ \<Rightarrow> False)"

text \<open>
  Example workspaces. In \<open>no_git\<close> every command fails. \<open>canary_workspace\<close> is on the branch
  \<open>feature/x\<close>, its remote default branch is \<open>canary\<close>, \<open>canary\<close> and \<open>main\<close> exist locally, and
  the diff against any base is the one line \<open>D<TAB>u.ts\<close>. \<open>develop_workspace\<close> has no remote; \<open>develop\<close> and \<open>master\<close> exist locally.
\<close>

definition no_git :: git where
  "no_git =
     \<lparr> rev_parse_abbrev_ref_HEAD = Inl (Error ''fatal''), symbolic_ref = Inl (Error ''fatal''),
       remote_set_head = Inl (Error ''fatal''), symbolic_ref_retry = Inl (Error ''fatal''),
       rev_parse_verify = (\<lambda>b. Inl (Error ''fatal'')),
       merge_base = (\<lambda>b f. Inl (Error ''fatal'')),
       diff_name_status = (\<lambda>r. Inl (Error ''fatal'')) \<rparr>"

definition canary_workspace :: git where
  "canary_workspace =
     no_git\<lparr> rev_parse_abbrev_ref_HEAD := Inr (''feature/x'' @ [newline]),
             symbolic_ref := Inr (''refs/remotes/origin/canary'' @ [newline]),
             rev_parse_verify :=
               (\<lambda>b. if b = ''canary'' \<or> b = ''main'' then Inr ''abc123'' else Inl (Error ''fatal'')),
             merge_base := (\<lambda>b f. Inr (''abc123'' @ [newline])),
             diff_name_status := (\<lambda>r. Inr (''D'' @ tab # ''u.ts'' @ [newline])) \<rparr>"

definition develop_workspace :: git where
  "develop_workspace =
     no_git\<lparr> rev_parse_verify := (\<lambda>b. if b = ''develop'' \<or> b = ''master'' then Inr ''abc123'' else Inl (Error ''fatal'')) \<rparr>"

section \<open>Vocabulary of the cache properties\<close>

text \<open>Sequences of calls to \<open>addDeletedFile\<close> and \<open>removeDeletedFile\<close>.\<close>

datatype deleted_op = AddDeleted string | RemoveDeleted string

fun apply_deleted_op :: "ClientCache \<Rightarrow> deleted_op \<Rightarrow> ClientCache" where
  "apply_deleted_op c (AddDeleted p) = addDeletedFile c p"
| "apply_deleted_op c (RemoveDeleted p) = removeDeletedFile c p"

definition apply_deleted_ops :: "ClientCache \<Rightarrow> deleted_op list \<Rightarrow> ClientCache" where
  "apply_deleted_ops c ops = foldl apply_deleted_op c ops"

text \<open>A store without objects, and a cache of the branch \<open>feature/x\<close> with two deleted files.\<close>

definition empty_store :: store where
  "empty_store = \<lparr> objects = (\<lambda>r. Map.empty), fresh = 0 \<rparr>"

definition example_cache :: ClientCache where
  "example_cache = \<lparr> gitBranch_cache = ''feature/x'', deletedFiles = [''a.ts'', ''b.ts''], files = 0 \<rparr>"

text \<open>The decoded value is an object with a member of the given name.\<close>

definition has_field :: "json \<Rightarrow> string \<Rightarrow> bool" where
  "has_field v name = (case v of JObject members \<Rightarrow> map_of members name \<noteq> None | _ \<Rightarrow> False)"

text \<open>
  A step of the loader fails: the cache file of the workspace and branch is not read,
  its content is not decoded, or the decoded value lacks \<open>gitBranch\<close> or \<open>files\<close>.
\<close>

definition load_fails :: "host \<Rightarrow> string \<Rightarrow> string \<Rightarrow> bool" where
  "load_fails h workspacePath_v branch =
     (case readFile h (getCachePath h workspacePath_v branch) of
        Inl _ \<Rightarrow> True
      | Inr cacheData \<Rightarrow>
          (case JSON_parse h cacheData of
             Inl _ \<Rightarrow> True
           | Inr v \<Rightarrow> \<not> has_field v ''gitBranch'' \<or> \<not> has_field v ''files''))"

text \<open>
  Example hosts: the cache file is absent, holds no JSON, or holds an object with a
  \<open>gitBranch\<close> and no \<open>files\<close>. The digest is a stand-in, and \<open>JSON_parse\<close> decodes the one
  document that the examples use.
\<close>

definition dquote :: "string \<Rightarrow> string" where
  "dquote s = CHR 0x22 # s @ [CHR 0x22]"

definition branch_only_json :: string where
  "branch_only_json = ''{'' @ dquote ''gitBranch'' @ '':'' @ dquote ''feature/x'' @ ''}''"

definition example_host :: "(string \<Rightarrow> error + string) \<Rightarrow> host" where
  "example_host read =
     \<lparr> globalStorageUri = ''/storage'', readFile = read,
       JSON_parse = (\<lambda>s. if s = branch_only_json
                          then Inr (JObject [(''gitBranch'', JString ''feature/x'')])
                          else Inl (Error ''Unexpected token'')),
       sha256_hex = (\<lambda>s. s) \<rparr>"

definition absent_file :: "string \<Rightarrow> error + string" where
  "absent_file p = Inl (Error ''ENOENT'')"

definition garbage_file :: "string \<Rightarrow> error + string" where
  "garbage_file p = Inr ''not json''"

definition branch_only_file :: "string \<Rightarrow> error + string" where
  "branch_only_file p = Inr branch_only_json"

definition fresh_cache :: "store \<times> (error + loaded)" where
  "fresh_cache =
     (\<lparr> objects = (\<lambda>r. Map.empty), fresh = 1 \<rparr>,
      Inr (Created \<lparr> gitBranch_cache = ''feature/x'', deletedFiles = [], files = 0 \<rparr>))"

section \<open>Vocabulary of the search property\<close>

text \<open>
  The request as the specification describes it: the base branch is the one resolved for
  the workspace, and a base branch is recognised by \<open>isBaseBranch\<close>.
\<close>

definition search_as_specified :: "git \<Rightarrow> string \<Rightarrow> SearchRequest \<Rightarrow> bool" where
  "search_as_specified g current request \<longleftrightarrow>
     preferBranch request = current \<and>
     fallbackBranch request = getBaseBranch g \<and>
     excludeFiles request =
       (if isBaseBranch current (Some g) then []
        else (case getGitDiff current (getBaseBranch g) g of
                Inr diff \<Rightarrow> deleted diff
              | Inl _ \<Rightarrow> []))"

text \<open>An example configuration, and a remote service that finds nothing.\<close>

definition example_config :: ManagedIndexingConfig where
  "example_config =
     \<lparr> organizationId_cfg = ''org'', projectId_cfg = ''proj'', kilocodeToken = ''token'',
       workspacePath = ''/repo'' \<rparr>"

definition no_results :: "SearchRequest \<Rightarrow> string \<Rightarrow> error + string list" where
  "no_results request token = Inr []"

section \<open>Vocabulary of the watcher property\<close>

definition paths_of_type :: "change_type \<Rightarrow> FileChangeEvent list \<Rightarrow> string list" where
  "paths_of_type t events = map event_filePath (filter (\<lambda>e. event_type e = t) events)"

fun is_deletion :: "watcher_call \<Rightarrow> bool" where
  "is_deletion (HandleFileDeleted _) = True"
| "is_deletion _ = False"

fun is_indexing :: "watcher_call \<Rightarrow> bool" where
  "is_indexing (IndexFile _) = True"
| "is_indexing _ = False"

text \<open>
  An example batch: a change, a deletion and a creation, in this order. The deletion
  handler of the example succeeds, the indexing handler throws.
\<close>

definition example_batch :: "FileChangeEvent list" where
  "example_batch =
     [\<lparr> event_type = TypeChanged, event_filePath = ''b.ts'', timestamp = 1 \<rparr>,
      \<lparr> event_type = TypeDeleted, event_filePath = ''a.ts'', timestamp = 2 \<rparr>,
      \<lparr> event_type = TypeCreated, event_filePath = ''c.ts'', timestamp = 3 \<rparr>]"

definition example_calls :: "watcher_call list" where
  "example_calls =
     processChangeQueue (Inr example_cache) (\<lambda>p c. Inr (addDeletedFile c p))
       (\<lambda>p c. Inl (Error ''cannot read'')) None example_batch"

section \<open>Chunker: the loop and its invariants\<close>

lemma loop_body_flush:
  "flushes cfg line v \<Longrightarrow>
   loop_body mk cfg i line v =
     \<lparr> chunks = chunks v @ [mk (currentChunk v) (startLine_var v) i],
       currentChunk = overlap_tail cfg (currentChunk v) @ [line],
       currentChunkChars = reduce_chars (overlap_tail cfg (currentChunk v)) + (int (length line) + 1),
       startLine_var = i - (int (length (overlap_tail cfg (currentChunk v))) - 1) \<rparr>"
  by (simp add: loop_body_def flushes_def overlap_tail_def Let_def)

lemma loop_body_keep:
  "\<not> flushes cfg line v \<Longrightarrow>
   loop_body mk cfg i line v =
     \<lparr> chunks = chunks v,
       currentChunk = currentChunk v @ [line],
       currentChunkChars = currentChunkChars v + (int (length line) + 1),
       startLine_var = startLine_var v \<rparr>"
  by (auto simp add: loop_body_def flushes_def Let_def)

lemma foldl_plus_sum: "foldl (\<lambda>sum l. sum + g l) a ls = a + sum_list (map g ls)"
  for a :: int
  by (induction ls arbitrary: a) auto

lemma reduce_chars_sum: "reduce_chars ls = (\<Sum>l\<leftarrow>ls. int (length l) + 1)"
proof -
  have "reduce_chars ls = foldl (\<lambda>sum l. sum + (int (length l) + 1)) 0 ls"
    by (simp add: reduce_chars_def add.assoc)
  then show ?thesis by (simp add: foldl_plus_sum)
qed

lemma reduce_chars_Nil: "reduce_chars [] = 0"
  by (simp add: reduce_chars_sum)

lemma reduce_chars_snoc: "reduce_chars (ls @ [l]) = reduce_chars ls + (int (length l) + 1)"
  by (simp add: reduce_chars_sum)

lemma length_join_char:
  "ls \<noteq> [] \<Longrightarrow> int (length (join_char sep ls)) + 1 = (\<Sum>l\<leftarrow>ls. int (length l) + 1)"
  by (induction sep ls rule: join_char.induct) auto

lemma reduce_chars_join:
  "ls \<noteq> [] \<Longrightarrow> reduce_chars ls = int (length (join_char sep ls)) + 1"
  by (simp add: reduce_chars_sum length_join_char)

lemma vars_inv_init:
  "vars_inv [] \<lparr> chunks = [], currentChunk = [], currentChunkChars = 0, startLine_var = 1 \<rparr>"
  by (simp add: vars_inv_def reduce_chars_Nil)

lemma overlap_tail_drop:
  "\<exists>n. overlap_tail cfg cur = drop n cur"
  unfolding overlap_tail_def by blast

lemma vars_inv_keep:
  assumes "vars_inv pre v" and "\<not> flushes cfg line v"
  shows "vars_inv (pre @ [line]) (loop_body mk cfg i line v)"
proof -
  have "nat (startLine_var v - 1) - length pre = 0"
    using assms(1) unfolding vars_inv_def by linarith
  then show ?thesis
    using assms by (simp add: loop_body_keep vars_inv_def reduce_chars_snoc)
qed

lemma vars_inv_flush:
  assumes inv: "vars_inv pre v" and fl: "flushes cfg line v" and i: "i = int (length pre)"
  shows "vars_inv (pre @ [line]) (loop_body mk cfg i line v)"
proof -
  obtain n where n: "overlap_tail cfg (currentChunk v) = drop n (currentChunk v)"
    using overlap_tail_drop by blast
  let ?s = "nat (startLine_var v - 1)"
  let ?t = "overlap_tail cfg (currentChunk v)"
  have cur: "currentChunk v = drop ?s pre" using inv by (simp add: vars_inv_def)
  have t: "?t = drop (n + ?s) pre" using n cur by simp
  have len: "length ?t = length pre - (n + ?s)" using t by simp
  have t2: "?t = drop (length pre - length ?t) pre"
  proof (cases "n + ?s \<le> length pre")
    case True
    then have "length pre - length ?t = n + ?s" using len by simp
    then show ?thesis using t by simp
  next
    case False
    then show ?thesis using t by simp
  qed
  have le: "length ?t \<le> length pre" using len by simp
  have nat_eq: "nat (int (length pre) - (int (length ?t) - 1) - 1) = length pre - length ?t"
    using le by simp
  show ?thesis
    unfolding loop_body_flush [OF fl] vars_inv_def
    using t2 le i nat_eq by (simp add: reduce_chars_snoc)
qed

lemma vars_inv_step:
  "vars_inv pre v \<Longrightarrow> vars_inv (pre @ [line]) (loop_body mk cfg (int (length pre)) line v)"
  by (cases "flushes cfg line v") (simp_all add: vars_inv_keep vars_inv_flush)

lemma chunk_maker_createChunk:
  "chunk_maker (\<lambda>ls sl el. createChunk sha256 uuidv5 ls sl el fp fileHash org proj br isBase)"
  by (simp add: chunk_maker_def createChunk_def Let_def)

lemma covered_new:
  assumes mk: "chunk_maker mk" and inv: "vars_inv pre v"
    and ne: "currentChunk v \<noteq> []" and big: "minChunkChars cfg \<le> currentChunkChars v"
  shows "covered cfg (pre @ rest) (mk (currentChunk v) (startLine_var v) (int (length pre)))"
proof -
  let ?s = "startLine_var v"
  have cur: "currentChunk v = drop (nat (?s - 1)) pre" and s1: "1 \<le> ?s"
    and chars: "currentChunkChars v = reduce_chars (currentChunk v)"
    using inv by (simp_all add: vars_inv_def)
  have lt: "nat (?s - 1) < length pre" using cur ne by simp
  then have s2: "?s \<le> int (length pre)" by linarith
  have "nat (int (length pre) - ?s + 1) = length pre - nat (?s - 1)" using s1 s2 by linarith
  then have "lines_between (pre @ rest) ?s (int (length pre)) = drop (nat (?s - 1)) pre"
    using lt by (simp add: lines_between_def)
  moreover have "minChunkChars cfg \<le> int (length (join_char newline (currentChunk v))) + 1"
    using big chars reduce_chars_join [OF ne] by simp
  ultimately show ?thesis
    using mk s1 s2 cur by (simp add: covered_def chunk_maker_def)
qed

lemma covered_step:
  assumes mk: "chunk_maker mk" and inv: "vars_inv pre v"
    and all: "\<forall>c\<in>set (chunks v). covered cfg (pre @ line # rest) c"
  shows "\<forall>c\<in>set (chunks (loop_body mk cfg (int (length pre)) line v)). covered cfg (pre @ line # rest) c"
proof (cases "flushes cfg line v")
  case True
  then have "covered cfg (pre @ line # rest) (mk (currentChunk v) (startLine_var v) (int (length pre)))"
    using covered_new [OF mk inv] by (simp add: flushes_def)
  then show ?thesis using all by (simp add: loop_body_flush [OF True])
next
  case False
  then show ?thesis using all by (simp add: loop_body_keep)
qed

lemma chunk_loop_covered:
  assumes mk: "chunk_maker mk"
  shows "vars_inv pre v \<Longrightarrow> \<forall>c\<in>set (chunks v). covered cfg (pre @ rest) c \<Longrightarrow>
     vars_inv (pre @ rest) (chunk_loop mk cfg rest (int (length pre)) v) \<and>
     (\<forall>c\<in>set (chunks (chunk_loop mk cfg rest (int (length pre)) v)). covered cfg (pre @ rest) c)"
proof (induction rest arbitrary: pre v)
  case Nil
  then show ?case by simp
next
  case (Cons line rest)
  have inv': "vars_inv (pre @ [line]) (loop_body mk cfg (int (length pre)) line v)"
    using Cons.prems(1) by (rule vars_inv_step)
  have all': "\<forall>c\<in>set (chunks (loop_body mk cfg (int (length pre)) line v)).
      covered cfg ((pre @ [line]) @ rest) c"
    using covered_step [OF mk Cons.prems(1) Cons.prems(2)] by simp
  have "int (length pre) + 1 = int (length (pre @ [line]))" by simp
  then show ?case
    using Cons.IH [OF inv' all'] by (simp del: length_append)
qed

lemma chunkFile_covered:
  assumes "c \<in> set (chunkFile sha256 uuidv5 fp content fileHash org proj br isBase config)"
  shows "covered (chunkerConfig config) (split_char newline content) c"
proof -
  let ?mk = "\<lambda>ls sl el. createChunk sha256 uuidv5 ls sl el fp fileHash org proj br isBase"
  let ?cfg = "chunkerConfig config"
  let ?lines = "split_char newline content"
  let ?v = "chunk_loop ?mk ?cfg ?lines 0
      \<lparr> chunks = [], currentChunk = [], currentChunkChars = 0, startLine_var = 1 \<rparr>"
  have mk: "chunk_maker ?mk" by (rule chunk_maker_createChunk)
  have loop: "vars_inv ?lines ?v \<and> (\<forall>c\<in>set (chunks ?v). covered ?cfg ?lines c)"
    using chunk_loop_covered [OF mk vars_inv_init, of ?cfg ?lines] by simp
  show ?thesis
  proof (cases "currentChunk ?v \<noteq> [] \<and> minChunkChars ?cfg \<le> currentChunkChars ?v")
    case True
    have "covered ?cfg (?lines @ []) (?mk (currentChunk ?v) (startLine_var ?v) (int (length ?lines)))"
      using covered_new [OF mk _ _ _] loop True by blast
    then show ?thesis using assms loop True by (auto simp add: chunkFile_def Let_def)
  next
    case False
    then show ?thesis using assms loop by (auto simp add: chunkFile_def Let_def)
  qed
qed

lemma max_line_len_nonneg: "0 \<le> max_line_len ls"
  by (induction ls) (simp_all add: max_line_len_def)

lemma max_line_len_ge: "l \<in> set ls \<Longrightarrow> int (length l) \<le> max_line_len ls"
  by (induction ls) (auto simp add: max_line_len_def)

lemma reduce_chars_le:
  "\<forall>l\<in>set ls. int (length l) \<le> w \<Longrightarrow> reduce_chars ls \<le> int (length ls) * (w + 1)"
  by (induction ls) (auto simp add: reduce_chars_sum algebra_simps)

lemma length_overlap_tail: "int (length (overlap_tail cfg cur)) \<le> max 0 (overlapLines cfg)"
  by (simp add: overlap_tail_def)

lemma set_overlap_tail: "set (overlap_tail cfg cur) \<subseteq> set cur"
  by (simp add: overlap_tail_def set_drop_subset)

lemma reduce_chars_overlap_tail:
  assumes "\<forall>l\<in>set cur. int (length l) \<le> w" and "0 \<le> w"
  shows "reduce_chars (overlap_tail cfg cur) \<le> max 0 (overlapLines cfg) * (w + 1)"
proof -
  have "\<forall>l\<in>set (overlap_tail cfg cur). int (length l) \<le> w"
    using assms(1) set_overlap_tail by blast
  then have "reduce_chars (overlap_tail cfg cur) \<le> int (length (overlap_tail cfg cur)) * (w + 1)"
    by (rule reduce_chars_le)
  also have "\<dots> \<le> max 0 (overlapLines cfg) * (w + 1)"
    using length_overlap_tail [of cfg cur] assms(2) by (intro mult_right_mono) simp_all
  finally show ?thesis .
qed

lemma chunk_bound_ge0: "0 \<le> w \<Longrightarrow> w \<le> chunk_bound cfg w"
proof -
  assume w: "0 \<le> w"
  have "0 \<le> max 0 (overlapLines cfg) * (w + 1)" using w by simp
  then show ?thesis unfolding chunk_bound_def by linarith
qed

lemma bounded_step:
  assumes mk: "chunk_maker mk" and inv: "vars_inv pre v" and b: "bounded_vars cfg w v"
    and w: "\<forall>l\<in>set (pre @ [line]). int (length l) \<le> w" and w0: "0 \<le> w"
  shows "bounded_vars cfg w (loop_body mk cfg i line v)"
proof (cases "flushes cfg line v")
  case True
  have ne: "currentChunk v \<noteq> []" using True by (simp add: flushes_def)
  have chars: "currentChunkChars v = reduce_chars (currentChunk v)"
    and cur: "currentChunk v = drop (nat (startLine_var v - 1)) pre"
    using inv by (simp_all add: vars_inv_def)
  have "set (currentChunk v) \<subseteq> set pre" using cur set_drop_subset by metis
  then have curw: "\<forall>l\<in>set (currentChunk v). int (length l) \<le> w" using w by auto
  have new: "int (length (codeChunk (mk (currentChunk v) (startLine_var v) i))) \<le> chunk_bound cfg w"
    using b chars reduce_chars_join [OF ne, of newline] mk
    by (simp add: bounded_vars_def chunk_maker_def)
  have "reduce_chars (overlap_tail cfg (currentChunk v)) \<le> max 0 (overlapLines cfg) * (w + 1)"
    using reduce_chars_overlap_tail [OF curw w0] .
  moreover have "int (length line) \<le> w" using w by simp
  ultimately have "reduce_chars (overlap_tail cfg (currentChunk v)) + (int (length line) + 1)
      \<le> chunk_bound cfg w + 1"
    unfolding chunk_bound_def by linarith
  then show ?thesis
    using new b by (simp add: loop_body_flush [OF True] bounded_vars_def)
next
  case False
  have line: "int (length line) \<le> w" using w by simp
  have chars: "currentChunkChars v = reduce_chars (currentChunk v)"
    using inv by (simp add: vars_inv_def)
  have "currentChunkChars v + (int (length line) + 1) \<le> chunk_bound cfg w + 1"
  proof (cases "currentChunk v = []")
    case True
    then have "currentChunkChars v = 0" using chars by (simp add: reduce_chars_Nil)
    then show ?thesis using line chunk_bound_ge0 [OF w0, of cfg] by linarith
  next
    case ne: False
    show ?thesis
    proof (cases "currentChunkChars v + (int (length line) + 1) > maxChunkChars cfg")
      case True
      then have "currentChunkChars v < minChunkChars cfg"
        using False ne by (simp add: flushes_def)
      then show ?thesis using line unfolding chunk_bound_def by linarith
    next
      case False
      then show ?thesis using w0 unfolding chunk_bound_def by linarith
    qed
  qed
  then show ?thesis using b by (simp add: loop_body_keep [OF False] bounded_vars_def)
qed

lemma chunk_loop_bounded:
  assumes mk: "chunk_maker mk" and w0: "0 \<le> w"
  shows "vars_inv pre v \<Longrightarrow> bounded_vars cfg w v \<Longrightarrow> \<forall>l\<in>set (pre @ rest). int (length l) \<le> w \<Longrightarrow>
     bounded_vars cfg w (chunk_loop mk cfg rest (int (length pre)) v)"
proof (induction rest arbitrary: pre v)
  case Nil
  then show ?case by simp
next
  case (Cons line rest)
  have inv': "vars_inv (pre @ [line]) (loop_body mk cfg (int (length pre)) line v)"
    using Cons.prems(1) by (rule vars_inv_step)
  have "\<forall>l\<in>set (pre @ [line]). int (length l) \<le> w" using Cons.prems(3) by simp
  then have b': "bounded_vars cfg w (loop_body mk cfg (int (length pre)) line v)"
    using bounded_step [OF mk Cons.prems(1) Cons.prems(2) _ w0] by blast
  have w': "\<forall>l\<in>set ((pre @ [line]) @ rest). int (length l) \<le> w" using Cons.prems(3) by simp
  have "int (length pre) + 1 = int (length (pre @ [line]))" by simp
  then show ?case
    using Cons.IH [OF inv' b' w'] by (simp del: length_append)
qed

lemma chunkFile_bounded:
  assumes "c \<in> set (chunkFile sha256 uuidv5 fp content fileHash org proj br isBase config)"
  shows "int (length (codeChunk c))
     \<le> chunk_bound (chunkerConfig config) (max_line_len (split_char newline content))"
proof -
  let ?mk = "\<lambda>ls sl el. createChunk sha256 uuidv5 ls sl el fp fileHash org proj br isBase"
  let ?cfg = "chunkerConfig config"
  let ?lines = "split_char newline content"
  let ?w = "max_line_len ?lines"
  let ?init = "\<lparr> chunks = [], currentChunk = [], currentChunkChars = 0, startLine_var = 1 \<rparr>"
  let ?v = "chunk_loop ?mk ?cfg ?lines 0 ?init"
  have mk: "chunk_maker ?mk" by (rule chunk_maker_createChunk)
  have w0: "0 \<le> ?w" by (rule max_line_len_nonneg)
  have b0: "bounded_vars ?cfg ?w ?init"
    using chunk_bound_ge0 [OF w0, of ?cfg] w0 by (simp add: bounded_vars_def)
  have inv: "vars_inv ?lines ?v"
    using chunk_loop_covered [OF mk vars_inv_init, of ?cfg ?lines] by simp
  have b: "bounded_vars ?cfg ?w ?v"
    using chunk_loop_bounded [OF mk w0 vars_inv_init b0, of ?lines] max_line_len_ge by simp
  show ?thesis
  proof (cases "currentChunk ?v \<noteq> [] \<and> minChunkChars ?cfg \<le> currentChunkChars ?v")
    case True
    then have ne: "currentChunk ?v \<noteq> []" by simp
    have "currentChunkChars ?v = reduce_chars (currentChunk ?v)"
      using inv by (simp add: vars_inv_def)
    then have "int (length (join_char newline (currentChunk ?v))) \<le> chunk_bound ?cfg ?w"
      using b reduce_chars_join [OF ne, of newline] by (simp add: bounded_vars_def)
    then have "int (length (codeChunk (?mk (currentChunk ?v) (startLine_var ?v) (int (length ?lines)))))
        \<le> chunk_bound ?cfg ?w"
      by (simp add: createChunk_def Let_def)
    then show ?thesis using assms b True by (auto simp add: chunkFile_def Let_def bounded_vars_def)
  next
    case False
    then show ?thesis using assms b by (auto simp add: chunkFile_def Let_def bounded_vars_def)
  qed
qed

lemma split_char_nonempty: "split_char sep s \<noteq> []"
  by (induction s) (auto split: list.splits)

lemma split_char_no_sep: "l \<in> set (split_char sep s) \<Longrightarrow> sep \<notin> set l"
  by (induction s arbitrary: l) (auto split: if_splits list.splits)

lemma split_char_plain: "sep \<notin> set xs \<Longrightarrow> split_char sep xs = [xs]"
  by (induction xs) auto

lemma split_char_append:
  "sep \<notin> set xs \<Longrightarrow> split_char sep (xs @ sep # ys) = xs # split_char sep ys"
  by (induction xs) auto

lemma split_join_char:
  "ls \<noteq> [] \<Longrightarrow> \<forall>l\<in>set ls. sep \<notin> set l \<Longrightarrow> split_char sep (join_char sep ls) = ls"
  by (induction sep ls rule: join_char.induct) (simp_all add: split_char_plain split_char_append)

lemma join_split_char: "join_char sep (split_char sep s) = s"
proof (induction s)
  case Nil
  then show ?case by simp
next
  case (Cons c s)
  obtain w ws where r: "split_char sep s = w # ws"
    using split_char_nonempty [of sep s] by (cases "split_char sep s") auto
  show ?case
  proof (cases "c = sep")
    case True
    then show ?thesis using Cons r by simp
  next
    case False
    then show ?thesis using Cons r by (cases ws) simp_all
  qed
qed

lemma linked_snoc: "linked k la cur \<Longrightarrow> linked k la (cur @ [l])"
  by (simp add: linked_def overlaps_def Let_def)

lemma linked_overlap_tail:
  assumes "0 < overlapLines cfg"
  shows "linked (overlapLines cfg) cur (overlap_tail cfg cur)"
proof -
  let ?k = "overlapLines cfg"
  have "nat (max 0 (int (length cur) - ?k)) = length cur - min (nat ?k) (length cur)"
    using assms by linarith
  then have t: "overlap_tail cfg cur = drop (length cur - min (nat ?k) (length cur)) cur"
    by (simp add: overlap_tail_def)
  have "length (overlap_tail cfg cur) = min (nat ?k) (length cur)"
    unfolding t by simp
  then show ?thesis using t by (simp add: linked_def overlaps_def Let_def)
qed

lemma chunk_lines_mk:
  assumes "chunk_maker mk" and "cur \<noteq> []" and "\<forall>l\<in>set cur. newline \<notin> set l"
  shows "chunk_lines (mk cur sl el) = cur"
  using assms by (simp add: chunk_lines_def chunk_maker_def split_join_char)

lemma overlap_step:
  assumes mk: "chunk_maker mk" and k: "0 < overlapLines cfg" and o: "overlap_inv cfg v"
    and nl: "\<forall>l\<in>set (currentChunk v). newline \<notin> set l"
  shows "overlap_inv cfg (loop_body mk cfg i line v)"
proof (cases "flushes cfg line v")
  case True
  let ?k = "overlapLines cfg"
  let ?c = "mk (currentChunk v) (startLine_var v) i"
  have ne: "currentChunk v \<noteq> []" using True by (simp add: flushes_def)
  have cl: "chunk_lines ?c = currentChunk v" using chunk_lines_mk [OF mk ne nl] .
  have "chunks v \<noteq> [] \<longrightarrow> overlaps ?k (chunk_lines (last (chunks v))) (chunk_lines ?c)"
    using o cl by (simp add: overlap_inv_def linked_def)
  then have succ: "successively (\<lambda>a b. overlaps ?k (chunk_lines a) (chunk_lines b)) (chunks v @ [?c])"
    using o by (auto simp add: overlap_inv_def successively_append_iff)
  have "linked ?k (chunk_lines ?c) (overlap_tail cfg (currentChunk v) @ [line])"
    using linked_overlap_tail [OF k, of "currentChunk v"] cl by (simp add: linked_snoc)
  then show ?thesis using succ by (simp add: loop_body_flush [OF True] overlap_inv_def)
next
  case False
  then show ?thesis using o by (simp add: loop_body_keep overlap_inv_def linked_snoc)
qed

lemma vars_inv_no_newline:
  assumes "vars_inv pre v" and "\<forall>l\<in>set pre. newline \<notin> set l"
  shows "\<forall>l\<in>set (currentChunk v). newline \<notin> set l"
proof -
  have "set (currentChunk v) \<subseteq> set pre"
    using assms(1) set_drop_subset unfolding vars_inv_def by metis
  then show ?thesis using assms(2) by blast
qed

lemma chunk_loop_overlap:
  assumes mk: "chunk_maker mk" and k: "0 < overlapLines cfg"
  shows "vars_inv pre v \<Longrightarrow> overlap_inv cfg v \<Longrightarrow> \<forall>l\<in>set (pre @ rest). newline \<notin> set l \<Longrightarrow>
     overlap_inv cfg (chunk_loop mk cfg rest (int (length pre)) v)"
proof (induction rest arbitrary: pre v)
  case Nil
  then show ?case by simp
next
  case (Cons line rest)
  have inv': "vars_inv (pre @ [line]) (loop_body mk cfg (int (length pre)) line v)"
    using Cons.prems(1) by (rule vars_inv_step)
  have "\<forall>l\<in>set pre. newline \<notin> set l" using Cons.prems(3) by simp
  then have "\<forall>l\<in>set (currentChunk v). newline \<notin> set l"
    using vars_inv_no_newline [OF Cons.prems(1)] by blast
  then have o': "overlap_inv cfg (loop_body mk cfg (int (length pre)) line v)"
    using overlap_step [OF mk k Cons.prems(2)] by blast
  have nl': "\<forall>l\<in>set ((pre @ [line]) @ rest). newline \<notin> set l" using Cons.prems(3) by simp
  have "int (length pre) + 1 = int (length (pre @ [line]))" by simp
  then show ?case
    using Cons.IH [OF inv' o' nl'] by (simp del: length_append)
qed

lemma successively_nth:
  "successively P xs \<Longrightarrow> Suc j < length xs \<Longrightarrow> P (xs ! j) (xs ! Suc j)"
proof (induction P xs arbitrary: j rule: successively.induct)
  case (3 P x y xs)
  then show ?case by (cases j) simp_all
qed simp_all

lemma chunkFile_successively:
  assumes k: "0 < overlapLines (chunkerConfig config)"
  shows "successively
     (\<lambda>a b. overlaps (overlapLines (chunkerConfig config)) (chunk_lines a) (chunk_lines b))
     (chunkFile sha256 uuidv5 fp content fileHash org proj br isBase config)"
proof -
  let ?mk = "\<lambda>ls sl el. createChunk sha256 uuidv5 ls sl el fp fileHash org proj br isBase"
  let ?cfg = "chunkerConfig config"
  let ?k = "overlapLines ?cfg"
  let ?lines = "split_char newline content"
  let ?init = "\<lparr> chunks = [], currentChunk = [], currentChunkChars = 0, startLine_var = 1 \<rparr>"
  let ?v = "chunk_loop ?mk ?cfg ?lines 0 ?init"
  have mk: "chunk_maker ?mk" by (rule chunk_maker_createChunk)
  have nl: "\<forall>l\<in>set ?lines. newline \<notin> set l" using split_char_no_sep by blast
  have inv: "vars_inv ?lines ?v"
    using chunk_loop_covered [OF mk vars_inv_init, of ?cfg ?lines] by simp
  have o0: "overlap_inv ?cfg ?init" by (simp add: overlap_inv_def)
  have o: "overlap_inv ?cfg ?v"
    using chunk_loop_overlap [OF mk k vars_inv_init o0, of ?lines] nl by simp
  show ?thesis
  proof (cases "currentChunk ?v \<noteq> [] \<and> minChunkChars ?cfg \<le> currentChunkChars ?v")
    case True
    then have ne: "currentChunk ?v \<noteq> []" by simp
    let ?c = "?mk (currentChunk ?v) (startLine_var ?v) (int (length ?lines))"
    have cl: "chunk_lines ?c = currentChunk ?v"
      using chunk_lines_mk [OF mk ne vars_inv_no_newline [OF inv nl]] .
    have "chunks ?v \<noteq> [] \<longrightarrow> overlaps ?k (chunk_lines (last (chunks ?v))) (chunk_lines ?c)"
      using o cl by (simp add: overlap_inv_def linked_def)
    then have "successively (\<lambda>a b. overlaps ?k (chunk_lines a) (chunk_lines b)) (chunks ?v @ [?c])"
      using o by (auto simp add: overlap_inv_def successively_append_iff)
    then show ?thesis using True by (simp add: chunkFile_def Let_def)
  next
    case False
    then show ?thesis using o by (auto simp add: chunkFile_def Let_def overlap_inv_def)
  qed
qed

section \<open>Chunker: evaluation on the example files\<close>

lemma loop_body_eval:
  "loop_body mk cfg i line \<lparr> chunks = cs, currentChunk = cur, currentChunkChars = n, startLine_var = s \<rparr> =
     (if n + (int (length line) + 1) > maxChunkChars cfg \<and> cur \<noteq> [] \<and> n \<ge> minChunkChars cfg
      then \<lparr> chunks = cs @ [mk cur s i],
             currentChunk = overlap_tail cfg cur @ [line],
             currentChunkChars = reduce_chars (overlap_tail cfg cur) + (int (length line) + 1),
             startLine_var = i - (int (length (overlap_tail cfg cur)) - 1) \<rparr>
      else \<lparr> chunks = cs, currentChunk = cur @ [line],
             currentChunkChars = n + (int (length line) + 1), startLine_var = s \<rparr>)"
  by (simp add: loop_body_flush loop_body_keep flushes_def)

lemma usual_config_values:
  "maxChunkChars (chunkerConfig usual_config) = 1000"
  "minChunkChars (chunkerConfig usual_config) = 200"
  "overlapLines (chunkerConfig usual_config) = 5"
  by (simp_all add: chunkerConfig_def usual_config_def)

lemma small_config_values:
  "maxChunkChars (chunkerConfig small_config) = 10"
  "minChunkChars (chunkerConfig small_config) = 2"
  "overlapLines (chunkerConfig small_config) = 1"
  by (simp_all add: chunkerConfig_def small_config_def)

lemma example_chunks_unfold:
  "example_chunks content config =
     (let cfg = chunkerConfig config;
          lines = split_char newline content;
          v = chunk_loop example_chunk cfg lines 0
                \<lparr> chunks = [], currentChunk = [], currentChunkChars = 0, startLine_var = 1 \<rparr>
      in if currentChunk v \<noteq> [] \<and> currentChunkChars v \<ge> minChunkChars cfg
         then chunks v @ [example_chunk (currentChunk v) (startLine_var v) (int (length lines))]
         else chunks v)"
proof -
  have "example_chunk = (\<lambda>ls sl el.
      createChunk (\<lambda>s. s) (\<lambda>name ns. name) ls sl el ''a.ts'' ''h'' ''org'' ''proj'' ''main'' True)"
    by (intro ext) (simp add: example_chunk_def)
  then show ?thesis by (simp add: example_chunks_def chunkFile_def Let_def)
qed

lemma example_chunk_fields:
  "codeChunk (example_chunk ls sl el) = join_char newline ls"
  "startLine (example_chunk ls sl el) = sl"
  "endLine (example_chunk ls sl el) = el"
  by (simp_all add: example_chunk_def createChunk_def Let_def)

lemma split_long_short:
  "split_char newline long_short = [replicate 199 CHR ''a'', replicate 900 CHR ''b'']"
  by (simp add: long_short_def split_char_append split_char_plain newline_def)

lemma loop_long_short:
  assumes "length a = 199" and "length b = 900"
    and "maxChunkChars cfg = 1000" and "minChunkChars cfg = 200" and "overlapLines cfg = 5"
  shows "chunk_loop mk cfg [a, b] 0
      \<lparr> chunks = [], currentChunk = [], currentChunkChars = 0, startLine_var = 1 \<rparr> =
     \<lparr> chunks = [mk [a] 1 1], currentChunk = [a, b], currentChunkChars = 1101, startLine_var = 1 \<rparr>"
  by (simp add: loop_body_eval assms overlap_tail_def reduce_chars_sum)

lemma example_chunks_long_short:
  "example_chunks long_short usual_config =
     [example_chunk [replicate 199 CHR ''a''] 1 1,
      example_chunk [replicate 199 CHR ''a'', replicate 900 CHR ''b''] 1 2]"
proof -
  have loop: "chunk_loop example_chunk (chunkerConfig usual_config)
      [replicate 199 CHR ''a'', replicate 900 CHR ''b''] 0
      \<lparr> chunks = [], currentChunk = [], currentChunkChars = 0, startLine_var = 1 \<rparr> =
     \<lparr> chunks = [example_chunk [replicate 199 CHR ''a''] 1 1],
       currentChunk = [replicate 199 CHR ''a'', replicate 900 CHR ''b''],
       currentChunkChars = 1101, startLine_var = 1 \<rparr>"
    by (rule loop_long_short) (simp_all add: usual_config_values)
  show ?thesis
    unfolding example_chunks_unfold Let_def split_long_short loop
    by (simp add: usual_config_values)
qed

lemma split_six_long: "split_char newline six_long = replicate 6 (replicate 300 CHR ''x'')"
  unfolding six_long_def by (rule split_join_char) (simp_all add: newline_def)

lemma replicate6: "replicate 6 x = [x, x, x, x, x, x]"
  by (simp add: numeral_eq_Suc)

lemma loop_six_long:
  assumes "length r = 300"
    and "maxChunkChars cfg = 1000" and "minChunkChars cfg = 200" and "overlapLines cfg = 5"
  shows "chunk_loop mk cfg [r, r, r, r, r, r] 0
      \<lparr> chunks = [], currentChunk = [], currentChunkChars = 0, startLine_var = 1 \<rparr> =
     \<lparr> chunks = [mk [r, r, r] 1 3, mk [r, r, r, r] 1 4, mk [r, r, r, r, r] 1 5],
       currentChunk = [r, r, r, r, r, r], currentChunkChars = 1806, startLine_var = 1 \<rparr>"
  by (simp add: loop_body_eval assms overlap_tail_def reduce_chars_sum)

lemma example_chunks_six_long:
  "example_chunks six_long usual_config =
     (let r = replicate 300 CHR ''x'' in
      [example_chunk [r, r, r] 1 3, example_chunk [r, r, r, r] 1 4,
       example_chunk [r, r, r, r, r] 1 5, example_chunk [r, r, r, r, r, r] 1 6])"
proof -
  let ?r = "replicate 300 CHR ''x''"
  have loop: "chunk_loop example_chunk (chunkerConfig usual_config) [?r, ?r, ?r, ?r, ?r, ?r] 0
      \<lparr> chunks = [], currentChunk = [], currentChunkChars = 0, startLine_var = 1 \<rparr> =
     \<lparr> chunks = [example_chunk [?r, ?r, ?r] 1 3, example_chunk [?r, ?r, ?r, ?r] 1 4,
                 example_chunk [?r, ?r, ?r, ?r, ?r] 1 5],
       currentChunk = [?r, ?r, ?r, ?r, ?r, ?r], currentChunkChars = 1806, startLine_var = 1 \<rparr>"
    by (rule loop_six_long) (simp_all add: usual_config_values)
  show ?thesis
    unfolding example_chunks_unfold Let_def split_six_long replicate6 loop
    by (simp add: usual_config_values)
qed

lemma max_line_len_six_long: "max_line_len (split_char newline six_long) = 300"
  by (simp add: split_six_long replicate6 max_line_len_def)

lemma split_four_lines:
  "split_char newline four_lines = [''aaaa'', ''bbbb'', ''cccc'', ''dddd'']"
  by (simp add: four_lines_def newline_def)

lemma example_chunks_four_lines:
  "example_chunks four_lines small_config =
     [example_chunk [''aaaa'', ''bbbb''] 1 2, example_chunk [''bbbb'', ''cccc''] 2 3,
      example_chunk [''cccc'', ''dddd''] 3 4]"
  unfolding example_chunks_unfold Let_def split_four_lines
  by (simp add: loop_body_eval small_config_values overlap_tail_def reduce_chars_sum)

section \<open>Chunker: the claims\<close>

text \<open>
  C1, as the specification states it: every chunk is the slice of the lines from index
  \<open>startLine - 1\<close> through \<open>endLine - 1\<close> joined by a newline, and its length is at least
  \<open>minChunkChars\<close> unless it is the last chunk of a file with content. The statement fails
  under the configuration \<open>{1000, 200, 5}\<close> on the file \<open>long_short\<close>: the loop closes
  the first line as a chunk of 199 characters (its counter, which adds one per line, reads
  200), and a second chunk follows.
\<close>

theorem chunkFile_min_chars_counterexample:
  "\<not> (\<forall>i<length (example_chunks long_short usual_config).
        codeChunk (example_chunks long_short usual_config ! i) =
          join_char newline (lines_between (split_char newline long_short)
            (startLine (example_chunks long_short usual_config ! i))
            (endLine (example_chunks long_short usual_config ! i))) \<and>
        (minChunkChars (chunkerConfig usual_config) \<le> int (length (codeChunk (example_chunks long_short usual_config ! i))) \<or>
         (i = length (example_chunks long_short usual_config) - 1 \<and> long_short \<noteq> [])))"
proof -
  let ?cs = "example_chunks long_short usual_config"
  have len: "length ?cs = 2" by (simp add: example_chunks_long_short)
  have "length (codeChunk (?cs ! 0)) = 199"
    by (simp add: example_chunks_long_short example_chunk_fields)
  then have "\<not> (minChunkChars (chunkerConfig usual_config) \<le> int (length (codeChunk (?cs ! 0))) \<or>
        ((0::nat) = length ?cs - 1 \<and> long_short \<noteq> []))"
    using len by (simp add: usual_config_values)
  moreover have "(0::nat) < length ?cs" using len by simp
  ultimately show ?thesis by blast
qed

text \<open>
  C1, amended: every chunk returned by \<open>chunkFile\<close> has \<open>1 \<le> startLine \<le> endLine \<le>\<close> the number
  of lines, its \<open>codeChunk\<close> is the slice of \<open>content.split("\n")\<close> from index \<open>startLine - 1\<close>
  through \<open>endLine - 1\<close> joined by a newline, and the length of \<open>codeChunk\<close> plus one is at
  least \<open>minChunkChars\<close>; the last chunk is no exception.
\<close>

theorem chunkFile_coverage:
  assumes "c \<in> set (chunkFile sha256 uuidv5 fp content fileHash org proj br isBase config)"
  shows "1 \<le> startLine c \<and> startLine c \<le> endLine c \<and>
     endLine c \<le> int (length (split_char newline content)) \<and>
     codeChunk c =
       join_char newline (lines_between (split_char newline content) (startLine c) (endLine c)) \<and>
     minChunkChars (chunkerConfig config) \<le> int (length (codeChunk c)) + 1"
  using chunkFile_covered [OF assms] unfolding covered_def .

theorem chunkFile_coverage_witness:
  "example_chunk [replicate 199 CHR ''a''] 1 1 \<in> set (example_chunks long_short usual_config) \<and>
   length (codeChunk (example_chunk [replicate 199 CHR ''a''] 1 1)) = 199 \<and>
   1 \<le> startLine (example_chunk [replicate 199 CHR ''a''] 1 1) \<and>
   startLine (example_chunk [replicate 199 CHR ''a''] 1 1)
     \<le> endLine (example_chunk [replicate 199 CHR ''a''] 1 1) \<and>
   endLine (example_chunk [replicate 199 CHR ''a''] 1 1) \<le> int (length (split_char newline long_short)) \<and>
   codeChunk (example_chunk [replicate 199 CHR ''a''] 1 1) =
     join_char newline (lines_between (split_char newline long_short)
       (startLine (example_chunk [replicate 199 CHR ''a''] 1 1))
       (endLine (example_chunk [replicate 199 CHR ''a''] 1 1))) \<and>
   minChunkChars (chunkerConfig usual_config)
     \<le> int (length (codeChunk (example_chunk [replicate 199 CHR ''a''] 1 1))) + 1"
proof -
  let ?c = "example_chunk [replicate 199 CHR ''a''] 1 1"
  have mem: "?c \<in> set (example_chunks long_short usual_config)"
    by (simp add: example_chunks_long_short)
  then have mem': "?c \<in> set (chunkFile (\<lambda>s. s) (\<lambda>name ns. name) ''a.ts'' long_short ''h'' ''org''
      ''proj'' ''main'' True usual_config)"
    by (simp add: example_chunks_def)
  have len: "length (codeChunk ?c) = 199" by (simp add: example_chunk_fields)
  show ?thesis
    using chunkFile_coverage [OF mem'] mem len by blast
qed

text \<open>
  C3, as the specification states it: every chunk has at most \<open>maxChunkChars + max_line_len\<close>
  characters. The statement fails under the configuration \<open>{1000, 200, 5}\<close> on the file \<open>six_long\<close>:
  three lines of 300 characters close the first chunk, all three are kept as overlap
  (\<open>overlapLines = 5\<close>), and the third chunk holds five lines, 1504 characters, against a
  bound of 1300.
\<close>

theorem chunkFile_max_chars_counterexample:
  "\<not> (\<forall>c\<in>set (example_chunks six_long usual_config).
        int (length (codeChunk c))
        \<le> maxChunkChars (chunkerConfig usual_config) + max_line_len (split_char newline six_long))"
proof -
  let ?r = "replicate 300 CHR ''x''"
  let ?c = "example_chunk [?r, ?r, ?r, ?r, ?r] 1 5"
  have mem: "?c \<in> set (example_chunks six_long usual_config)"
    by (simp add: example_chunks_six_long Let_def)
  have "int (length (codeChunk ?c)) = 1504" by (simp add: example_chunk_fields)
  then have "\<not> int (length (codeChunk ?c))
        \<le> maxChunkChars (chunkerConfig usual_config) + max_line_len (split_char newline six_long)"
    by (simp add: max_line_len_six_long usual_config_values)
  then show ?thesis using mem by blast
qed

text \<open>
  C3, amended: every chunk returned by \<open>chunkFile\<close> has at most
  \<open>max (maxChunkChars, minChunkChars - 1, max (0, overlapLines) * (max_line_len + 1)) + max_line_len\<close>
  characters: the lines kept as overlap and a chunk still below \<open>minChunkChars\<close> are not
  held to \<open>maxChunkChars\<close>. Where the overlap lines fit into \<open>maxChunkChars\<close> and
  \<open>minChunkChars \<le> maxChunkChars + 1\<close>, this is the bound \<open>maxChunkChars + max_line_len\<close>.
\<close>

theorem chunkFile_bound:
  assumes "c \<in> set (chunkFile sha256 uuidv5 fp content fileHash org proj br isBase config)"
  shows "int (length (codeChunk c))
     \<le> max (max (maxChunkChars (chunkerConfig config)) (minChunkChars (chunkerConfig config) - 1))
         (max 0 (overlapLines (chunkerConfig config)) * (max_line_len (split_char newline content) + 1))
       + max_line_len (split_char newline content)"
  using chunkFile_bounded [OF assms] by (simp add: chunk_bound_def)

theorem chunkFile_bound_witness:
  "example_chunk (replicate 6 (replicate 300 CHR ''x'')) 1 6 \<in> set (example_chunks six_long usual_config) \<and>
   int (length (codeChunk (example_chunk (replicate 6 (replicate 300 CHR ''x'')) 1 6))) = 1805 \<and>
   max (max (maxChunkChars (chunkerConfig usual_config)) (minChunkChars (chunkerConfig usual_config) - 1))
         (max 0 (overlapLines (chunkerConfig usual_config)) * (max_line_len (split_char newline six_long) + 1))
       + max_line_len (split_char newline six_long) = 1805"
proof -
  let ?c = "example_chunk (replicate 6 (replicate 300 CHR ''x'')) 1 6"
  have "?c \<in> set (example_chunks six_long usual_config)"
    by (simp add: example_chunks_six_long Let_def replicate6)
  then have mem: "?c \<in> set (chunkFile (\<lambda>s. s) (\<lambda>name ns. name) ''a.ts'' six_long ''h'' ''org''
      ''proj'' ''main'' True usual_config)"
    by (simp add: example_chunks_def)
  have len: "int (length (codeChunk ?c)) = 1805"
    by (simp add: example_chunk_fields replicate6)
  have bound: "max (max (maxChunkChars (chunkerConfig usual_config)) (minChunkChars (chunkerConfig usual_config) - 1))
         (max 0 (overlapLines (chunkerConfig usual_config)) * (max_line_len (split_char newline six_long) + 1))
       + max_line_len (split_char newline six_long) = 1805"
    by (simp add: max_line_len_six_long usual_config_values)
  show ?thesis
    using chunkFile_bound [OF mem] mem len bound
    by (simp add: example_chunks_def)
qed

text \<open>
  C6: with \<open>overlapLines = k > 0\<close>, for consecutive chunks \<open>A\<close>, \<open>B\<close> of \<open>chunkFile\<close> the last
  \<open>min (k, number of lines of A)\<close> lines of \<open>A\<close> are the first as many lines of \<open>B\<close>. The
  lines of a chunk are its \<open>codeChunk\<close> split at newlines.
\<close>

theorem chunkFile_overlap:
  assumes "0 < overlapLines (chunkerConfig config)"
    and "Suc j < length (chunkFile sha256 uuidv5 fp content fileHash org proj br isBase config)"
  shows "drop
       (length (chunk_lines (chunkFile sha256 uuidv5 fp content fileHash org proj br isBase config ! j))
        - min (nat (overlapLines (chunkerConfig config)))
            (length (chunk_lines (chunkFile sha256 uuidv5 fp content fileHash org proj br isBase config ! j))))
       (chunk_lines (chunkFile sha256 uuidv5 fp content fileHash org proj br isBase config ! j))
     = take
       (min (nat (overlapLines (chunkerConfig config)))
          (length (chunk_lines (chunkFile sha256 uuidv5 fp content fileHash org proj br isBase config ! j))))
       (chunk_lines (chunkFile sha256 uuidv5 fp content fileHash org proj br isBase config ! Suc j))"
  using successively_nth [OF chunkFile_successively [OF assms(1)] assms(2)]
  by (simp add: overlaps_def Let_def)

theorem chunkFile_overlap_witness:
  "0 < overlapLines (chunkerConfig small_config) \<and>
   Suc 0 < length (example_chunks four_lines small_config) \<and>
   chunk_lines (example_chunks four_lines small_config ! 0) = [''aaaa'', ''bbbb''] \<and>
   chunk_lines (example_chunks four_lines small_config ! Suc 0) = [''bbbb'', ''cccc''] \<and>
   drop (2 - min (nat 1) 2) [''aaaa'', ''bbbb''] = take (min (nat 1) 2) [''bbbb'', ''cccc'']"
proof -
  have k: "0 < overlapLines (chunkerConfig small_config)" by (simp add: small_config_values)
  have len: "Suc 0 < length (chunkFile (\<lambda>s. s) (\<lambda>name ns. name) ''a.ts'' four_lines ''h'' ''org''
      ''proj'' ''main'' True small_config)"
    using example_chunks_four_lines by (simp add: example_chunks_def)
  have a: "chunk_lines (example_chunks four_lines small_config ! 0) = [''aaaa'', ''bbbb'']"
    by (simp add: example_chunks_four_lines chunk_lines_def example_chunk_fields newline_def)
  have b: "chunk_lines (example_chunks four_lines small_config ! Suc 0) = [''bbbb'', ''cccc'']"
    by (simp add: example_chunks_four_lines chunk_lines_def example_chunk_fields newline_def)
  show ?thesis
    using chunkFile_overlap [OF k len] k len a b
    by (simp add: example_chunks_def small_config_values)
qed

section \<open>Git probe: the parser of the diff\<close>

lemma combine_no_change: "combine d no_change = d"
  by (simp add: combine_def no_change_def)

lemma parse_line_contribution: "parse_line line d = combine d (contribution line)"
proof (cases "split_char tab line")
  case Nil
  then show ?thesis by (simp add: parse_line_def contribution_def combine_no_change)
next
  case (Cons status rest)
  note outer = Cons
  show ?thesis
  proof (cases rest)
    case Nil
    then show ?thesis using outer by (simp add: parse_line_def contribution_def combine_no_change)
  next
    case (Cons p ps)
    show ?thesis
    proof (cases status)
      case Nil
      then show ?thesis using outer Cons
        by (simp add: parse_line_def contribution_def combine_no_change status_letter_def)
    next
      case (Cons c cs)
      then show ?thesis using outer \<open>rest = p # ps\<close>
        by (cases ps)
          (simp_all add: parse_line_def contribution_def combine_no_change status_letter_def
            combine_def no_change_def Let_def)
    qed
  qed
qed

lemma parse_lines_contribution:
  "parse_lines ls d =
     \<lparr> added = added d @ concat (map (\<lambda>l. added (contribution l)) ls),
       modified = modified d @ concat (map (\<lambda>l. modified (contribution l)) ls),
       deleted = deleted d @ concat (map (\<lambda>l. deleted (contribution l)) ls) \<rparr>"
  by (induction ls arbitrary: d) (simp_all add: parse_line_contribution combine_def)

lemma trim_empty: "trim s = [] \<longleftrightarrow> (\<forall>c\<in>set s. whitespace c)"
proof
  assume "trim s = []"
  then have "dropWhile whitespace (rev (dropWhile whitespace s)) = []" by (simp add: trim_def)
  then have "\<forall>c\<in>set (dropWhile whitespace s). whitespace c"
    by (simp add: dropWhile_eq_Nil_conv)
  moreover have "dropWhile whitespace s \<noteq> [] \<Longrightarrow> \<not> whitespace (hd (dropWhile whitespace s))"
    by (rule hd_dropWhile)
  ultimately have "dropWhile whitespace s = []"
    using hd_in_set by blast
  then show "\<forall>c\<in>set s. whitespace c" by (simp add: dropWhile_eq_Nil_conv)
next
  assume "\<forall>c\<in>set s. whitespace c"
  then have e: "dropWhile whitespace s = []" using dropWhile_eq_Nil_conv by blast
  show "trim s = []" unfolding trim_def e by simp
qed

lemma split_char_subset: "w \<in> set (split_char sep s) \<Longrightarrow> set w \<subseteq> set s"
proof (induction s arbitrary: w)
  case Nil
  then show ?case by simp
next
  case (Cons c s)
  show ?case
  proof (cases "c = sep")
    case True
    then show ?thesis using Cons by auto
  next
    case False
    show ?thesis
    proof (cases "split_char sep s")
      case Nil
      then show ?thesis using Cons False by simp
    next
      case inner: (Cons x xs)
      then have "w = c # x \<or> w \<in> set xs" using Cons.prems False by simp
      moreover have "set x \<subseteq> set s" using Cons.IH [of x] inner by simp
      moreover have "w \<in> set xs \<Longrightarrow> set w \<subseteq> set s" using Cons.IH [of w] inner by simp
      ultimately show ?thesis by auto
    qed
  qed
qed

lemma whitespace_not_letter:
  "whitespace c \<Longrightarrow> c \<noteq> CHR ''A'' \<and> c \<noteq> CHR ''M'' \<and> c \<noteq> CHR ''D'' \<and> c \<noteq> CHR ''R'' \<and> c \<noteq> CHR ''C''"
  by (auto simp add: whitespace_def)

lemma blank_contribution:
  assumes "trim line = []"
  shows "contribution line = no_change"
proof (cases "split_char tab line")
  case Nil
  then show ?thesis by (simp add: contribution_def)
next
  case (Cons status rest)
  have ws: "\<forall>c\<in>set status. whitespace c"
    using split_char_subset [of status tab line] Cons assms by (auto simp add: trim_empty)
  have "\<not> status_letter status c" if "\<not> whitespace c" for c
    using ws that by (cases status) (auto simp add: status_letter_def)
  then have "\<not> status_letter status CHR ''A''" "\<not> status_letter status CHR ''M''"
    "\<not> status_letter status CHR ''D''" "\<not> status_letter status CHR ''R''"
    "\<not> status_letter status CHR ''C''"
    using whitespace_not_letter by blast+
  then show ?thesis using Cons by (cases rest) (simp_all add: contribution_def)
qed

lemma concat_map_filter_blank:
  assumes "\<And>l. trim l = [] \<Longrightarrow> f (contribution l) = []"
  shows "concat (map (\<lambda>l. f (contribution l)) (filter (\<lambda>l. trim l \<noteq> []) ls))
     = concat (map (\<lambda>l. f (contribution l)) ls)"
  using assms by (induction ls) auto

lemma parseDiffOutput_contributions:
  "parseDiffOutput out =
     \<lparr> added = concat (map (\<lambda>l. added (contribution l)) (split_char newline out)),
       modified = concat (map (\<lambda>l. modified (contribution l)) (split_char newline out)),
       deleted = concat (map (\<lambda>l. deleted (contribution l)) (split_char newline out)) \<rparr>"
proof -
  have "added (contribution l) = []" "modified (contribution l) = []" "deleted (contribution l) = []"
    if "trim l = []" for l
    using blank_contribution [OF that] by (simp_all add: no_change_def)
  then show ?thesis
    by (simp add: parseDiffOutput_def Let_def parse_lines_contribution concat_map_filter_blank)
qed

text \<open>
  C4: the three lists of \<open>parseDiffOutput\<close> are, line by line of the output, the
  contributions of the lines: \<open>A\<close>, \<open>M\<close>, \<open>D\<close> put the path (all tokens after the first
  TAB, joined by TAB) into \<open>added\<close>, \<open>modified\<close>, \<open>deleted\<close>; \<open>R\<close> puts its old path into
  \<open>deleted\<close> and its new path into \<open>added\<close>; \<open>C\<close> puts its target into \<open>added\<close>; any other
  line contributes nothing. The filter of blank lines changes no list. The two lines of
  the specification parse as it says.
\<close>

theorem parseDiffOutput_by_status:
  "parseDiffOutput out =
     \<lparr> added = concat (map (\<lambda>l. added (contribution l)) (split_char newline out)),
       modified = concat (map (\<lambda>l. modified (contribution l)) (split_char newline out)),
       deleted = concat (map (\<lambda>l. deleted (contribution l)) (split_char newline out)) \<rparr> \<and>
   parseDiffOutput (''R100'' @ tab # ''old.ts'' @ tab # ''new.ts'') =
     \<lparr> added = [''new.ts''], modified = [], deleted = [''old.ts''] \<rparr> \<and>
   parseDiffOutput (''D'' @ tab # ''foo.ts'') =
     \<lparr> added = [], modified = [], deleted = [''foo.ts''] \<rparr>"
proof -
  have "parseDiffOutput (''R100'' @ tab # ''old.ts'' @ tab # ''new.ts'') =
     \<lparr> added = [''new.ts''], modified = [], deleted = [''old.ts''] \<rparr>"
    by (simp add: parseDiffOutput_def parse_line_def trim_def whitespace_def tab_def newline_def Let_def)
  moreover have "parseDiffOutput (''D'' @ tab # ''foo.ts'') =
     \<lparr> added = [], modified = [], deleted = [''foo.ts''] \<rparr>"
    by (simp add: parseDiffOutput_def parse_line_def trim_def whitespace_def tab_def newline_def Let_def)
  ultimately show ?thesis using parseDiffOutput_contributions [of out] by blast
qed

section \<open>Git probe: the base branch\<close>

lemma first_verified_common:
  "first_verified g [''main'', ''develop'', ''master''] =
     (if verifies g ''main'' then ''main''
      else if verifies g ''develop'' then ''develop''
      else if verifies g ''master'' then ''master''
      else ''main'')"
  by (simp add: verifies_def split: sum.splits)

lemma getDefaultBranchFromRemote_nonempty: "getDefaultBranchFromRemote g = Some d \<Longrightarrow> d \<noteq> []"
  by (auto simp add: getDefaultBranchFromRemote_def branch_of_ref_def split: sum.splits option.splits if_splits)

lemma getBaseBranch_remote:
  assumes "getDefaultBranchFromRemote g = Some d" and "verifies g d"
  shows "getBaseBranch g = d"
  using assms getDefaultBranchFromRemote_nonempty [OF assms(1)]
  by (auto simp add: getBaseBranch_def verifies_def Let_def split: sum.splits)

lemma getBaseBranch_fallback:
  assumes "\<not> (\<exists>d. getDefaultBranchFromRemote g = Some d \<and> verifies g d)"
  shows "getBaseBranch g = first_verified g [''main'', ''develop'', ''master'']"
  using assms
  by (auto simp add: getBaseBranch_def verifies_def Let_def split: sum.splits option.splits)

lemma canary_default: "getDefaultBranchFromRemote canary_workspace = Some ''canary''"
  by (simp add: getDefaultBranchFromRemote_def canary_workspace_def no_git_def branch_of_ref_def
      trim_def whitespace_def newline_def line_terminator_def)

lemma develop_default: "getDefaultBranchFromRemote develop_workspace = None"
  by (simp add: getDefaultBranchFromRemote_def develop_workspace_def no_git_def)

text \<open>
  C5: \<open>getBaseBranch\<close> returns the remote default branch whenever it is determined and
  verifies locally, whatever else verifies; otherwise the first of \<open>main\<close>, \<open>develop\<close>,
  \<open>master\<close> that verifies locally, and \<open>main\<close> when none does.
\<close>

theorem getBaseBranch_order:
  "(\<forall>d. getDefaultBranchFromRemote g = Some d \<and> verifies g d \<longrightarrow> getBaseBranch g = d) \<and>
   (\<not> (\<exists>d. getDefaultBranchFromRemote g = Some d \<and> verifies g d) \<longrightarrow>
      getBaseBranch g =
        (if verifies g ''main'' then ''main''
         else if verifies g ''develop'' then ''develop''
         else if verifies g ''master'' then ''master''
         else ''main''))"
proof (intro conjI allI impI)
  fix d
  assume "getDefaultBranchFromRemote g = Some d \<and> verifies g d"
  then show "getBaseBranch g = d" using getBaseBranch_remote by blast
next
  assume "\<not> (\<exists>d. getDefaultBranchFromRemote g = Some d \<and> verifies g d)"
  then show "getBaseBranch g =
        (if verifies g ''main'' then ''main''
         else if verifies g ''develop'' then ''develop''
         else if verifies g ''master'' then ''master''
         else ''main'')"
    using getBaseBranch_fallback [of g] first_verified_common [of g] by simp
qed

theorem getBaseBranch_order_witness:
  "getDefaultBranchFromRemote canary_workspace = Some ''canary'' \<and>
   verifies canary_workspace ''canary'' \<and> verifies canary_workspace ''main'' \<and>
   getBaseBranch canary_workspace = ''canary'' \<and>
   \<not> (\<exists>d. getDefaultBranchFromRemote develop_workspace = Some d \<and> verifies develop_workspace d) \<and>
   \<not> verifies develop_workspace ''main'' \<and> verifies develop_workspace ''develop'' \<and>
   getBaseBranch develop_workspace = ''develop''"
proof -
  have v: "verifies canary_workspace ''canary''" "verifies canary_workspace ''main''"
    by (simp_all add: verifies_def canary_workspace_def)
  have w: "\<not> verifies develop_workspace ''main''" "verifies develop_workspace ''develop''"
    by (simp_all add: verifies_def develop_workspace_def no_git_def)
  have n: "\<not> (\<exists>d. getDefaultBranchFromRemote develop_workspace = Some d \<and> verifies develop_workspace d)"
    by (simp add: develop_default)
  have "getBaseBranch canary_workspace = ''canary''"
    using getBaseBranch_order [of canary_workspace] canary_default v by blast
  moreover have "getBaseBranch develop_workspace = ''develop''"
    using getBaseBranch_order [of develop_workspace] n w by simp
  ultimately show ?thesis using canary_default v w n by blast
qed

section \<open>Client cache: the list of deleted files\<close>

lemma addDeletedFile_present: "p \<in> set (deletedFiles c) \<Longrightarrow> addDeletedFile c p = c"
  by (simp add: addDeletedFile_def)

lemma addDeletedFile_member: "p \<in> set (deletedFiles (addDeletedFile c p))"
  by (simp add: addDeletedFile_def)

lemma addDeletedFile_idem: "addDeletedFile (addDeletedFile c p) p = addDeletedFile c p"
  by (rule addDeletedFile_present) (rule addDeletedFile_member)

lemma addDeletedFile_distinct:
  "distinct (deletedFiles c) \<Longrightarrow> distinct (deletedFiles (addDeletedFile c p))"
  by (simp add: addDeletedFile_def)

lemma removeDeletedFile_distinct:
  "distinct (deletedFiles c) \<Longrightarrow> distinct (deletedFiles (removeDeletedFile c p))"
  by (simp add: removeDeletedFile_def)

lemma apply_deleted_op_distinct:
  "distinct (deletedFiles c) \<Longrightarrow> distinct (deletedFiles (apply_deleted_op c x))"
  by (cases x) (simp_all add: addDeletedFile_distinct removeDeletedFile_distinct)

lemma apply_deleted_ops_distinct:
  "distinct (deletedFiles c) \<Longrightarrow> distinct (deletedFiles (apply_deleted_ops c ops))"
  unfolding apply_deleted_ops_def
  by (induction ops arbitrary: c) (simp_all add: apply_deleted_op_distinct)

lemma createEmptyCache_deleted: "deletedFiles (snd (createEmptyCache st b)) = []"
  by (simp add: createEmptyCache_def new_object_def)

text \<open>
  C10: \<open>addDeletedFile\<close> returns the cache itself when the path is already listed, so it
  is idempotent; \<open>addDeletedFile\<close> and \<open>removeDeletedFile\<close> keep \<open>deletedFiles\<close> free of
  duplicates, and so does every sequence of them from an empty cache.
\<close>

theorem addDeletedFile_no_duplicates:
  "(p \<in> set (deletedFiles c) \<longrightarrow> addDeletedFile c p = c) \<and>
   addDeletedFile (addDeletedFile c p) p = addDeletedFile c p \<and>
   (distinct (deletedFiles c) \<longrightarrow>
      distinct (deletedFiles (addDeletedFile c p)) \<and> distinct (deletedFiles (removeDeletedFile c p))) \<and>
   distinct (deletedFiles (apply_deleted_ops (snd (createEmptyCache st b)) ops))"
  using addDeletedFile_present addDeletedFile_idem addDeletedFile_distinct removeDeletedFile_distinct
    apply_deleted_ops_distinct [of "snd (createEmptyCache st b)" ops] createEmptyCache_deleted [of st b]
  by simp

theorem addDeletedFile_no_duplicates_witness:
  "''a.ts'' \<in> set (deletedFiles example_cache) \<and>
   addDeletedFile example_cache ''a.ts'' = example_cache \<and>
   distinct (deletedFiles example_cache) \<and>
   deletedFiles (addDeletedFile example_cache ''c.ts'') = [''a.ts'', ''b.ts'', ''c.ts''] \<and>
   distinct (deletedFiles (addDeletedFile example_cache ''c.ts'')) \<and>
   deletedFiles (removeDeletedFile example_cache ''a.ts'') = [''b.ts''] \<and>
   distinct (deletedFiles (removeDeletedFile example_cache ''a.ts'')) \<and>
   deletedFiles (apply_deleted_ops (snd (createEmptyCache empty_store ''feature/x''))
      [AddDeleted ''a.ts'', AddDeleted ''b.ts'', AddDeleted ''a.ts'', RemoveDeleted ''b.ts''])
     = [''a.ts'']"
proof -
  have m: "''a.ts'' \<in> set (deletedFiles example_cache)" by (simp add: example_cache_def)
  have d: "distinct (deletedFiles example_cache)" by (simp add: example_cache_def)
  have a: "deletedFiles (addDeletedFile example_cache ''c.ts'') = [''a.ts'', ''b.ts'', ''c.ts'']"
    by (simp add: example_cache_def addDeletedFile_def)
  have r: "deletedFiles (removeDeletedFile example_cache ''a.ts'') = [''b.ts'']"
    by (simp add: example_cache_def removeDeletedFile_def)
  have s: "deletedFiles (apply_deleted_ops (snd (createEmptyCache empty_store ''feature/x''))
      [AddDeleted ''a.ts'', AddDeleted ''b.ts'', AddDeleted ''a.ts'', RemoveDeleted ''b.ts''])
     = [''a.ts'']"
    by (simp add: apply_deleted_ops_def createEmptyCache_def new_object_def empty_store_def
        addDeletedFile_def removeDeletedFile_def)
  show ?thesis
    using addDeletedFile_no_duplicates [of "''a.ts''" example_cache]
      addDeletedFile_no_duplicates [of "''c.ts''" example_cache] m d a r s
    by simp
qed

section \<open>Client cache: updateCacheEntry\<close>

text \<open>
  C7 says that \<open>updateCacheEntry\<close> leaves its input cache unchanged, and so does the comment
  of the function (\<open>does not mutate original\<close>). The function assigns into \<open>cache.files\<close>
  and returns the object it was given: after the call on an empty cache \<open>c\<close>, \<open>c\<close> itself
  has the new entry.
\<close>

theorem updateCacheEntry_mutates_input:
  "(let (st0, c) = createEmptyCache empty_store ''main'';
        (st1, c') = updateCacheEntry st0 1700000000000 c ''a.ts'' ''h1'' 3
    in c' = c \<and> files_of st0 c ''a.ts'' = None \<and>
       files_of st1 c ''a.ts'' = Some \<lparr> hash = ''h1'', lastIndexed = 1700000000000, chunkCount = 3 \<rparr>)"
  by (simp add: createEmptyCache_def new_object_def empty_store_def updateCacheEntry_def files_of_def)

section \<open>Client cache: loading\<close>

lemma missing_field_falsy:
  "\<not> has_field v name \<Longrightarrow> get_property v name = Inr b \<Longrightarrow> \<not> truthy b"
  by (cases v) (auto simp add: has_field_def get_property_def truthy_def)

lemma read_cache_fails:
  assumes "getCurrentBranch g = Inr branch" and "load_fails h ws branch"
  shows "\<exists>e. read_cache h g ws = Inl e"
proof (cases "readFile h (getCachePath h ws branch)")
  case (Inl e)
  then show ?thesis using assms(1) by (simp add: read_cache_def)
next
  case (Inr cacheData)
  note r = Inr
  show ?thesis
  proof (cases "JSON_parse h cacheData")
    case (Inl e)
    then show ?thesis using assms(1) r by (simp add: read_cache_def)
  next
    case (Inr v)
    then have lack: "\<not> has_field v ''gitBranch'' \<or> \<not> has_field v ''files''"
      using assms(2) r by (simp add: load_fails_def)
    show ?thesis
    proof (cases "get_property v ''gitBranch''")
      case (Inl e)
      then show ?thesis using assms(1) r Inr by (simp add: read_cache_def)
    next
      case gb: (Inr b)
      show ?thesis
      proof (cases "truthy b")
        case False
        then show ?thesis using assms(1) r Inr gb by (simp add: read_cache_def)
      next
        case True
        then have "has_field v ''gitBranch''" using missing_field_falsy [OF _ gb] by blast
        then have nf: "\<not> has_field v ''files''" using lack by simp
        show ?thesis
        proof (cases "get_property v ''files''")
          case (Inl e)
          then show ?thesis using assms(1) r Inr gb True by (simp add: read_cache_def)
        next
          case f: (Inr fv)
          have "\<not> truthy fv" using missing_field_falsy [OF nf f] .
          then show ?thesis using assms(1) r Inr gb True f by (simp add: read_cache_def)
        qed
      qed
    qed
  qed
qed

lemma no_git_branch:
  "getCurrentBranch no_git = Inl (Error ''Failed to get current git branch: fatal'')"
  by (simp add: getCurrentBranch_def no_git_def)

lemma absent_file_fails: "load_fails (example_host absent_file) ws branch"
  by (simp add: load_fails_def example_host_def absent_file_def)

text \<open>
  C8, as the specification states it: in every workspace, \<open>loadClientCache\<close> returns an
  empty cache whenever a step fails. In the workspace \<open>no_git\<close>, where git does not
  resolve the current branch, the cache file is absent for every branch; the \<open>try\<close> block
  throws at its first statement, the \<open>catch\<close> clause calls \<open>getCurrentBranch\<close> again, and
  the call throws that error: no cache is returned.
\<close>

theorem loadClientCache_no_branch_counterexample:
  "load_fails (example_host absent_file) ''/repo'' ''main'' \<and>
   loadClientCache (example_host absent_file) no_git empty_store ''/repo'' =
     (empty_store, Inl (Error ''Failed to get current git branch: fatal'')) \<and>
   \<not> (\<exists>st' c. loadClientCache (example_host absent_file) no_git empty_store ''/repo'' =
          (st', Inr (Created c)))"
proof -
  have l: "loadClientCache (example_host absent_file) no_git empty_store ''/repo'' =
     (empty_store, Inl (Error ''Failed to get current git branch: fatal''))"
    by (simp add: loadClientCache_def read_cache_def no_git_branch)
  show ?thesis
    using absent_file_fails [of "''/repo''" "''main''"] by (simp add: l)
qed

text \<open>
  C8, amended: when git resolves the current branch and a step of the loader fails (the
  file is absent, its content does not decode, or the decoded value lacks \<open>gitBranch\<close> or
  \<open>files\<close>), \<open>loadClientCache\<close> returns an empty cache for the current branch.
\<close>

theorem loadClientCache_empty_on_failure:
  assumes "getCurrentBranch g = Inr branch" and "load_fails h ws branch"
  shows "\<exists>st' c. loadClientCache h g st ws = (st', Inr (Created c)) \<and>
     gitBranch_cache c = branch \<and> deletedFiles c = [] \<and> files_of st' c = Map.empty"
proof -
  obtain e where "read_cache h g ws = Inl e" using read_cache_fails [OF assms] by blast
  then show ?thesis
    using assms(1)
    by (simp add: loadClientCache_def createEmptyCache_def new_object_def files_of_def)
qed

lemma canary_branch: "getCurrentBranch canary_workspace = Inr ''feature/x''"
  by (simp add: getCurrentBranch_def canary_workspace_def no_git_def trim_def whitespace_def newline_def)

lemma branch_only_json_neq: "''not json'' \<noteq> branch_only_json"
  by (simp add: branch_only_json_def)

lemma load_fails_examples:
  "load_fails (example_host absent_file) ''/repo'' ''feature/x''"
  "load_fails (example_host garbage_file) ''/repo'' ''feature/x''"
  "load_fails (example_host branch_only_file) ''/repo'' ''feature/x''"
  by (simp_all add: load_fails_def example_host_def absent_file_def garbage_file_def
      branch_only_file_def branch_only_json_neq has_field_def)

lemma load_examples:
  "loadClientCache (example_host absent_file) canary_workspace empty_store ''/repo'' = fresh_cache"
  "loadClientCache (example_host garbage_file) canary_workspace empty_store ''/repo'' = fresh_cache"
  "loadClientCache (example_host branch_only_file) canary_workspace empty_store ''/repo'' = fresh_cache"
  by (simp_all add: loadClientCache_def read_cache_def canary_branch example_host_def absent_file_def
      garbage_file_def branch_only_file_def branch_only_json_neq get_property_def truthy_def
      createEmptyCache_def new_object_def empty_store_def fresh_cache_def fun_upd_def)

theorem loadClientCache_empty_on_failure_witness:
  "getCurrentBranch canary_workspace = Inr ''feature/x'' \<and>
   load_fails (example_host absent_file) ''/repo'' ''feature/x'' \<and>
   load_fails (example_host garbage_file) ''/repo'' ''feature/x'' \<and>
   load_fails (example_host branch_only_file) ''/repo'' ''feature/x'' \<and>
   loadClientCache (example_host absent_file) canary_workspace empty_store ''/repo'' = fresh_cache \<and>
   loadClientCache (example_host garbage_file) canary_workspace empty_store ''/repo'' = fresh_cache \<and>
   loadClientCache (example_host branch_only_file) canary_workspace empty_store ''/repo'' = fresh_cache \<and>
   (\<exists>st' c. fresh_cache = (st', Inr (Created c)) \<and>
      gitBranch_cache c = ''feature/x'' \<and> deletedFiles c = [] \<and> files_of st' c = Map.empty)"
proof -
  have "\<exists>st' c. loadClientCache (example_host absent_file) canary_workspace empty_store ''/repo''
        = (st', Inr (Created c)) \<and>
      gitBranch_cache c = ''feature/x'' \<and> deletedFiles c = [] \<and> files_of st' c = Map.empty"
    using loadClientCache_empty_on_failure [OF canary_branch load_fails_examples(1)] .
  then have "\<exists>st' c. fresh_cache = (st', Inr (Created c)) \<and>
      gitBranch_cache c = ''feature/x'' \<and> deletedFiles c = [] \<and> files_of st' c = Map.empty"
    by (simp only: load_examples)
  then show ?thesis
    using canary_branch load_fails_examples load_examples by blast
qed

section \<open>Search: the request\<close>

lemma canary_base: "getBaseBranch canary_workspace = ''canary''"
  using getBaseBranch_remote [OF canary_default] by (simp add: verifies_def canary_workspace_def)

lemma canary_diff:
  "getGitDiff ''feature/x'' ''main'' canary_workspace =
     Inr \<lparr> added = [], modified = [], deleted = [''u.ts''] \<rparr>"
  by (simp add: getGitDiff_def canary_workspace_def no_git_def Let_def parseDiffOutput_def
      parse_line_def trim_def whitespace_def newline_def tab_def)

lemma search_request:
  assumes "getCurrentBranch g = Inr current"
  shows "fst (search g api q config p) =
     [(\<lparr> query = q, organizationId_req = organizationId_cfg config,
         projectId_req = projectId_cfg config, preferBranch = current, fallbackBranch = ''main'',
         excludeFiles =
           (if current = ''main'' \<or> current = ''master'' \<or> current = ''develop'' then []
            else (case getGitDiff current ''main'' g of Inr diff \<Rightarrow> deleted diff | Inl _ \<Rightarrow> [])),
         path = p \<rparr>, kilocodeToken config)]"
  using assms by (simp add: search_def Let_def)

text \<open>
  C2, as the specification states it: the request carries the base branch resolved for
  the workspace as \<open>fallbackBranch\<close>, and the deleted files of the diff against it unless
  the current branch is a base branch. In \<open>canary_workspace\<close> the base branch is \<open>canary\<close>;
  the request carries \<open>main\<close>.
\<close>

theorem search_fallback_counterexample:
  "\<not> (\<forall>request\<in>set (map fst (fst (search canary_workspace no_results ''needle'' example_config None))).
        search_as_specified canary_workspace ''feature/x'' request)"
proof -
  have "fallbackBranch (fst (hd (fst (search canary_workspace no_results ''needle'' example_config None))))
      = ''main''"
    by (simp add: search_request [OF canary_branch])
  moreover have "fst (search canary_workspace no_results ''needle'' example_config None) \<noteq> []"
    by (simp add: search_request [OF canary_branch])
  ultimately show ?thesis
    by (auto simp add: search_as_specified_def canary_base search_request [OF canary_branch])
qed

text \<open>
  C2, amended: when the current branch is resolved, \<open>search\<close> issues one request, with
  \<open>preferBranch\<close> the current branch and \<open>fallbackBranch\<close> the literal \<open>main\<close>; \<open>excludeFiles\<close>
  is empty when the current branch is exactly \<open>main\<close>, \<open>master\<close> or \<open>develop\<close>, and otherwise
  the deleted files of the diff of the current branch against \<open>main\<close>, or empty when that
  diff fails.
\<close>

theorem search_sends_main:
  assumes "getCurrentBranch g = Inr current"
  shows "\<exists>request. fst (search g api q config p) = [(request, kilocodeToken config)] \<and>
     query request = q \<and> organizationId_req request = organizationId_cfg config \<and>
     projectId_req request = projectId_cfg config \<and> path request = p \<and>
     preferBranch request = current \<and> fallbackBranch request = ''main'' \<and>
     (current \<in> {''main'', ''master'', ''develop''} \<longrightarrow> excludeFiles request = []) \<and>
     (current \<notin> {''main'', ''master'', ''develop''} \<longrightarrow>
        (\<forall>diff. getGitDiff current ''main'' g = Inr diff \<longrightarrow> excludeFiles request = deleted diff) \<and>
        (\<forall>e. getGitDiff current ''main'' g = Inl e \<longrightarrow> excludeFiles request = []))"
  by (auto simp add: search_request [OF assms])

theorem search_sends_main_witness:
  "getCurrentBranch canary_workspace = Inr ''feature/x'' \<and>
   ''feature/x'' \<notin> {''main'', ''master'', ''develop''} \<and>
   getGitDiff ''feature/x'' ''main'' canary_workspace =
     Inr \<lparr> added = [], modified = [], deleted = [''u.ts''] \<rparr> \<and>
   (\<exists>request.
      fst (search canary_workspace no_results ''needle'' example_config None) = [(request, ''token'')] \<and>
      preferBranch request = ''feature/x'' \<and> fallbackBranch request = ''main'' \<and>
      excludeFiles request = [''u.ts''])"
proof -
  obtain request where r:
    "fst (search canary_workspace no_results ''needle'' example_config None)
       = [(request, kilocodeToken example_config)]"
    "preferBranch request = ''feature/x''" "fallbackBranch request = ''main''"
    "''feature/x'' \<notin> {''main'', ''master'', ''develop''} \<longrightarrow>
        (\<forall>diff. getGitDiff ''feature/x'' ''main'' canary_workspace = Inr diff \<longrightarrow>
           excludeFiles request = deleted diff)"
    using search_sends_main [OF canary_branch, of no_results "''needle''" example_config None] by blast
  have nb: "''feature/x'' \<notin> {''main'', ''master'', ''develop''}" by simp
  have "excludeFiles request = [''u.ts'']" using r(4) nb canary_diff by simp
  then show ?thesis
    using r(1,2,3) nb canary_branch canary_diff by (auto simp add: example_config_def)
qed

section \<open>Watcher: the order of a batch\<close>

lemma delete_loop_calls:
  "fst (delete_loop h events cache) = map (\<lambda>e. HandleFileDeleted (event_filePath e)) events"
  by (induction events arbitrary: cache) (simp_all add: Let_def case_prod_beta)

lemma index_loop_calls:
  "fst (index_loop h events cache) = map (\<lambda>e. IndexFile (event_filePath e)) events"
  by (induction events arbitrary: cache) (simp_all add: Let_def case_prod_beta)

lemma processChangeQueue_calls:
  assumes "load = Inr cache"
  shows "processChangeQueue load hdel hidx cb events =
     map HandleFileDeleted (paths_of_type TypeDeleted events) @
     map IndexFile (paths_of_type TypeCreated events @ paths_of_type TypeChanged events) @
     (case cb of None \<Rightarrow> [] | Some _ \<Rightarrow> if events = [] then [] else [OnFilesChanged events])"
proof (cases "events = []")
  case True
  then show ?thesis by (simp add: processChangeQueue_def paths_of_type_def split: option.splits)
next
  case False
  let ?del = "filter (\<lambda>e. event_type e = TypeDeleted) events"
  let ?idx = "filter (\<lambda>e. event_type e = TypeCreated) events @ filter (\<lambda>e. event_type e = TypeChanged) events"
  obtain c1 where d: "delete_loop hdel ?del cache = (map (\<lambda>e. HandleFileDeleted (event_filePath e)) ?del, c1)"
    using delete_loop_calls [of hdel ?del cache] by (cases "delete_loop hdel ?del cache") simp
  obtain c2 where i: "index_loop hidx ?idx c1 = (map (\<lambda>e. IndexFile (event_filePath e)) ?idx, c2)"
    using index_loop_calls [of hidx ?idx c1] by (cases "index_loop hidx ?idx c1") simp
  show ?thesis
    using False assms d i
    by (simp add: processChangeQueue_def paths_of_type_def Let_def comp_def split: option.splits)
qed

lemma processChangeQueue_no_cache:
  "load = Inl e \<Longrightarrow> processChangeQueue load hdel hidx cb events = []"
  by (simp add: processChangeQueue_def)

lemma deletions_first:
  assumes "calls = map HandleFileDeleted ds @ map IndexFile xs @ rest"
    and "i < length calls" and "j < length calls"
    and "is_indexing (calls ! i)" and "is_deletion (calls ! j)"
    and "\<forall>c\<in>set rest. \<not> is_deletion c"
  shows "j < i"
proof -
  have i_ge: "length ds \<le> i"
  proof (rule ccontr)
    assume "\<not> length ds \<le> i"
    then have "calls ! i = HandleFileDeleted (ds ! i)" using assms(1) by (simp add: nth_append)
    then show False using assms(4) by simp
  qed
  have j_lt: "j < length ds"
  proof (rule ccontr)
    assume n: "\<not> j < length ds"
    then have "calls ! j = (map IndexFile xs @ rest) ! (j - length ds)"
      using assms(1) by (simp add: nth_append)
    moreover have "j - length ds < length (map IndexFile xs @ rest)" using assms(1,3) n by simp
    ultimately have "calls ! j \<in> set (map IndexFile xs @ rest)" using nth_mem by metis
    then have "\<not> is_deletion (calls ! j)" using assms(6) by auto
    then show False using assms(5) by simp
  qed
  show ?thesis using i_ge j_lt by simp
qed

text \<open>
  C9: in the calls that \<open>processChangeQueue\<close> makes for a batch, every call of the deletion
  handler comes before every call of the indexing handler; and when the cache was loaded,
  the deletion handler is called for every deleted event and the indexing handler for
  every created and every changed event.
\<close>

theorem processChangeQueue_deletes_first:
  "(\<forall>i j. i < length (processChangeQueue load hdel hidx cb events) \<and>
          j < length (processChangeQueue load hdel hidx cb events) \<and>
          is_indexing (processChangeQueue load hdel hidx cb events ! i) \<and>
          is_deletion (processChangeQueue load hdel hidx cb events ! j) \<longrightarrow> j < i) \<and>
   (\<forall>cache. load = Inr cache \<longrightarrow>
      filter is_deletion (processChangeQueue load hdel hidx cb events)
        = map HandleFileDeleted (paths_of_type TypeDeleted events) \<and>
      filter is_indexing (processChangeQueue load hdel hidx cb events)
        = map IndexFile (paths_of_type TypeCreated events @ paths_of_type TypeChanged events))"
proof (intro conjI allI impI)
  fix i j
  let ?calls = "processChangeQueue load hdel hidx cb events"
  assume a: "i < length ?calls \<and> j < length ?calls \<and> is_indexing (?calls ! i) \<and> is_deletion (?calls ! j)"
  show "j < i"
  proof (cases load)
    case (Inl e)
    then show ?thesis using a by (simp add: processChangeQueue_no_cache)
  next
    case (Inr cache)
    let ?rest = "case cb of None \<Rightarrow> [] | Some _ \<Rightarrow> if events = [] then [] else [OnFilesChanged events]"
    have "\<forall>c\<in>set ?rest. \<not> is_deletion c" by (simp split: option.splits)
    then show ?thesis
      using deletions_first [OF processChangeQueue_calls [OF Inr, of hdel hidx cb events]] a by blast
  qed
next
  fix cache
  assume l: "load = Inr cache"
  have f1: "filter is_deletion (map HandleFileDeleted xs) = map HandleFileDeleted xs" for xs
    by (induction xs) simp_all
  have f2: "filter is_deletion (map IndexFile xs) = []" for xs
    by (induction xs) simp_all
  show "filter is_deletion (processChangeQueue load hdel hidx cb events)
        = map HandleFileDeleted (paths_of_type TypeDeleted events)"
    unfolding processChangeQueue_calls [OF l]
    by (simp add: f1 f2 split: option.splits)
next
  fix cache
  assume l: "load = Inr cache"
  have f1: "filter is_indexing (map HandleFileDeleted xs) = []" for xs
    by (induction xs) simp_all
  have f2: "filter is_indexing (map IndexFile xs) = map IndexFile xs" for xs
    by (induction xs) simp_all
  show "filter is_indexing (processChangeQueue load hdel hidx cb events)
        = map IndexFile (paths_of_type TypeCreated events @ paths_of_type TypeChanged events)"
    unfolding processChangeQueue_calls [OF l]
    by (simp add: f1 f2 split: option.splits del: map_append)
qed

lemma example_calls_value:
  "example_calls = [HandleFileDeleted ''a.ts'', IndexFile ''c.ts'', IndexFile ''b.ts'']"
  by (simp add: example_calls_def processChangeQueue_def example_batch_def Let_def)

theorem processChangeQueue_deletes_first_witness:
  "example_calls = [HandleFileDeleted ''a.ts'', IndexFile ''c.ts'', IndexFile ''b.ts''] \<and>
   1 < length example_calls \<and> 0 < length example_calls \<and>
   is_indexing (example_calls ! 1) \<and> is_deletion (example_calls ! 0) \<and> (0::nat) < 1 \<and>
   filter is_deletion example_calls = map HandleFileDeleted (paths_of_type TypeDeleted example_batch) \<and>
   filter is_indexing example_calls
     = map IndexFile (paths_of_type TypeCreated example_batch @ paths_of_type TypeChanged example_batch)"
proof -
  have v: "example_calls = [HandleFileDeleted ''a.ts'', IndexFile ''c.ts'', IndexFile ''b.ts'']"
    by (rule example_calls_value)
  have pre: "1 < length example_calls \<and> 0 < length example_calls \<and>
      is_indexing (example_calls ! 1) \<and> is_deletion (example_calls ! 0)"
    by (simp add: v)
  note t = processChangeQueue_deletes_first [of "Inr example_cache" "\<lambda>p c. Inr (addDeletedFile c p)"
      "\<lambda>p c. Inl (Error ''cannot read'')" None example_batch, folded example_calls_def]
  have "(0::nat) < 1" using t pre by blast
  moreover have "filter is_deletion example_calls
      = map HandleFileDeleted (paths_of_type TypeDeleted example_batch) \<and>
    filter is_indexing example_calls
      = map IndexFile (paths_of_type TypeCreated example_batch @ paths_of_type TypeChanged example_batch)"
    using t by blast
  ultimately show ?thesis using v pre by blast
qed

end
